theory Spec2Isabelle
  imports Main "HOL-Library.Word" "HOL-Library.Signed_Division" "HOL-Library.Monad_Syntax"
begin

text \<open>
  A shallow embedding of \<open>nel/map.h\<close>: the patch-indexed map of an unbounded 2D
  world, its coordinate mapping and neighborhood geometry, the protocol that fixes
  patches, the iteration that the sampler asks for, and the snapshot functions. The
  model comes first, the statements about it after.
\<close>

section \<open>Machine integers\<close>

text \<open>
  \<open>int64_t\<close> and \<open>uint64_t\<close> are 64-bit words, \<open>unsigned int\<close> is a 32-bit word.
  A word carries no sign: \<open>sint\<close> reads it as two's complement, \<open>uint\<close> and
  \<open>unat\<close> as unsigned, and \<open>+\<close> and \<open>-\<close> wrap around.
\<close>

type_synonym i64 = "64 word"
type_synonym u64 = "64 word"
type_synonym u32 = "32 word"

text \<open>
  \<open>lldiv\<close> of the C library: quotient truncated towards zero and the remainder that
  goes with it, both computed on the signed values.
\<close>

definition lldiv :: "i64 \<Rightarrow> i64 \<Rightarrow> i64 \<times> i64" where
  "lldiv a b = (word_of_int (sint a sdiv sint b), word_of_int (sint a smod sint b))"

section \<open>Positions\<close>

text \<open>
  Modelled from the spec: \<open>struct position\<close> is declared in \<open>position.h\<close>, which is
  not among the sources. A position is a pair of signed 64-bit integers (fields \<open>x\<close> and
  \<open>y\<close>, here \<open>pos_x\<close> and \<open>pos_y\<close>), and \<open>up\<close>, \<open>down\<close>, \<open>left\<close>, \<open>right\<close>
  are the unit steps along the axes. \<open>map.h\<close> calls the half of a patch with the larger
  \<open>y\<close> the top half and the one with the larger \<open>x\<close> the right half, so \<open>up\<close>
  increases \<open>y\<close> and \<open>right\<close> increases \<open>x\<close>. A step over the end of the range of
  \<open>int64_t\<close> is undefined in C++; here it wraps around.
\<close>

record position =
  pos_x :: i64
  pos_y :: i64

definition up :: "position \<Rightarrow> position" where
  "up p = p\<lparr>pos_y := pos_y p + 1\<rparr>"

definition down :: "position \<Rightarrow> position" where
  "down p = p\<lparr>pos_y := pos_y p - 1\<rparr>"

definition left :: "position \<Rightarrow> position" where
  "left p = p\<lparr>pos_x := pos_x p - 1\<rparr>"

definition right :: "position \<Rightarrow> position" where
  "right p = p\<lparr>pos_x := pos_x p + 1\<rparr>"

text \<open>
  Modelled from the spec: \<open>operator <\<close> of \<open>position\<close>, which \<open>insertion_sort\<close> uses,
  is declared in \<open>position.h\<close> too. It compares \<open>x\<close> first and \<open>y\<close> second, as signed
  integers.
\<close>

definition position_less :: "position \<Rightarrow> position \<Rightarrow> bool" where
  "position_less a b =
     (if pos_x a <s pos_x b then True
      else if pos_x b <s pos_x a then False
      else pos_y a <s pos_y b)"

section \<open>Items, patches and the map\<close>

record item =
  item_type :: u32
  location :: position
  creation_time :: u64
  deletion_time :: u64

text \<open>
  \<open>patch<Data>\<close>: the payload type \<open>Data\<close> is the type parameter \<open>'d\<close>.
\<close>

record 'd patch =
  items :: "item list"
  fixed :: bool
  data :: 'd

text \<open>
  \<open>init(patch<Data>&)\<close>: a new patch is not fixed and has no items. The payload is
  initialised by the embedder's \<open>init(Data&)\<close>, whose result is the parameter
  \<open>init_data\<close>.
\<close>

definition init_patch :: "'d \<Rightarrow> 'd patch" where
  "init_patch init_data = \<lparr>items = [], fixed = False, data = init_data\<rparr>"

text \<open>
  \<open>struct map\<close>. The hash map \<open>patches\<close> of the core library is an association list
  from patch positions to patches, in which \<open>get_or_make_patch\<close> is the only function
  that adds a key, and only when the key is absent. The table of the core library
  keeps one position to mark an empty slot, which cannot be a key; the association
  list has no such position. The state of \<open>std::minstd_rand\<close>
  is a natural number. The type \<open>gibbs_field_cache\<close> is declared in
  \<open>gibbs_field.h\<close>, which is not among the sources: it is the type parameter \<open>'c\<close>.
  The field \<open>n\<close> is called \<open>map_n\<close> here.
\<close>

record ('d, 'c) map_state =
  patches :: "(position \<times> 'd patch) list"
  map_n :: u32
  gibbs_iterations :: u32
  rng :: nat
  cache :: 'c

section \<open>The pseudo-random generator\<close>

text \<open>
  \<open>std::minstd_rand\<close> is \<open>linear_congruential_engine<uint_fast32_t, 48271, 0, 2147483647>\<close>.
  Seeding with \<open>s\<close> sets the state to \<open>s mod m\<close>, or to 1 when that is 0 (the increment
  is 0). A draw multiplies the state by 48271 modulo \<open>m\<close> and returns the new state.
\<close>

definition minstd_modulus :: nat where
  "minstd_modulus = 2147483647"

definition minstd_seed :: "nat \<Rightarrow> nat" where
  "minstd_seed s = (if s mod minstd_modulus = 0 then 1 else s mod minstd_modulus)"

definition minstd_next :: "nat \<Rightarrow> nat" where
  "minstd_next st = (48271 * st) mod minstd_modulus"

text \<open>\<open>rng()\<close> on the map's generator: the value drawn and the map with the new state.\<close>

definition rng_draw :: "('d, 'c) map_state \<Rightarrow> nat \<times> ('d, 'c) map_state" where
  "rng_draw m = (minstd_next (rng m), m\<lparr>rng := minstd_next (rng m)\<rparr>)"

section \<open>Coordinate mapping\<close>

text \<open>
  \<open>floored_div\<close> and \<open>floored_div_with_remainder\<close>. The divisor is an
  \<open>unsigned int\<close>, converted to \<open>long long\<close> for \<open>lldiv\<close>. Division by zero is
  undefined in C: the model says nothing about \<open>b = 0\<close>.
\<close>

definition floored_div :: "i64 \<Rightarrow> u32 \<Rightarrow> i64" where
  "floored_div a b =
     (let (quot, rem) = lldiv a (ucast b)
      in if a <s 0 \<and> rem \<noteq> 0 then quot - 1 else quot)"

definition floored_div_with_remainder :: "i64 \<Rightarrow> u32 \<Rightarrow> i64 \<times> i64" where
  "floored_div_with_remainder a b =
     (let (quot, rem) = lldiv a (ucast b)
      in if a <s 0 \<and> rem \<noteq> 0 then (quot - 1, rem + ucast b) else (quot, rem))"

text \<open>
  The two overloads of \<open>world_to_patch_coordinates\<close>: the first returns the patch
  position, the second the patch position and the position within the patch. The
  member \<open>n\<close> of the map is the argument \<open>n\<close>.
\<close>

definition world_to_patch_coordinates :: "position \<Rightarrow> u32 \<Rightarrow> position" where
  "world_to_patch_coordinates world_position n =
     (let x_quotient = floored_div (pos_x world_position) n;
          y_quotient = floored_div (pos_y world_position) n
      in \<lparr>pos_x = x_quotient, pos_y = y_quotient\<rparr>)"

definition world_to_patch_coordinates_within :: "position \<Rightarrow> u32 \<Rightarrow> position \<times> position" where
  "world_to_patch_coordinates_within world_position n =
     (let x_quotient = floored_div_with_remainder (pos_x world_position) n;
          y_quotient = floored_div_with_remainder (pos_y world_position) n
      in (\<lparr>pos_x = fst x_quotient, pos_y = fst y_quotient\<rparr>,
          \<lparr>pos_x = snd x_quotient, pos_y = snd y_quotient\<rparr>))"

section \<open>Neighborhood geometry\<close>

text \<open>
  \<open>get_neighborhood_positions\<close>: the index of the patch that contains the world
  position, and the four patch positions. The comparison of an \<open>int64_t\<close> with
  \<open>n / 2\<close> converts the \<open>unsigned int\<close> to \<open>int64_t\<close> and is signed.
\<close>

definition get_neighborhood_positions :: "position \<Rightarrow> u32 \<Rightarrow> nat \<times> position list" where
  "get_neighborhood_positions world_position n =
     (let (patch_position, position_within_patch) =
            world_to_patch_coordinates_within world_position n;
          half = (ucast (n div 2) :: i64);
          (p0, patch_index) =
            (if pos_x position_within_patch <s half then
               (if pos_y position_within_patch <s half
                then (left patch_position, 1)
                else (up (left patch_position), 3))
             else
               (if pos_y position_within_patch <s half
                then (patch_position, 0)
                else (up patch_position, 2)));
          p1 = right p0;
          p2 = down p0;
          p3 = right p2
      in (patch_index, [p0, p1, p2, p3]))"

section \<open>Patch lookup and creation\<close>

definition get_patch_if_exists :: "('d, 'c) map_state \<Rightarrow> position \<Rightarrow> 'd patch option" where
  "get_patch_if_exists m patch_position = map_of (patches m) patch_position"

text \<open>
  \<open>get_or_make_patch\<close> returns a reference to the patch at \<open>patch_position\<close>, which
  it adds when it is absent. In the model a reference to a patch is its position, and
  the function returns the map. \<open>get_fixed_neighborhood\<close> reserves room for 16 more
  patches before it calls \<open>get_or_make_patch<false>\<close>, so that the table is not
  resized and references stay valid: the association list has no capacity.
\<close>

definition get_or_make_patch ::
  "'d \<Rightarrow> position \<Rightarrow> ('d, 'c) map_state \<Rightarrow> ('d, 'c) map_state" where
  "get_or_make_patch init_data patch_position m =
     (case map_of (patches m) patch_position of
        Some p \<Rightarrow> m
      | None \<Rightarrow> m\<lparr>patches := (patch_position, init_patch init_data) # patches m\<rparr>)"

text \<open>\<open>p->fixed\<close> for the patch at a position; a patch that is not there is not fixed.\<close>

definition patch_is_fixed :: "('d, 'c) map_state \<Rightarrow> position \<Rightarrow> bool" where
  "patch_is_fixed m patch_position =
     (case map_of (patches m) patch_position of Some p \<Rightarrow> fixed p | None \<Rightarrow> False)"

text \<open>\<open>p->fixed = true\<close> through a reference to the patch at a position.\<close>

definition set_fixed :: "position \<Rightarrow> ('d, 'c) map_state \<Rightarrow> ('d, 'c) map_state" where
  "set_fixed patch_position m =
     m\<lparr>patches := map (\<lambda>(q, p). if q = patch_position then (q, p\<lparr>fixed := True\<rparr>) else (q, p))
                       (patches m)\<rparr>"

section \<open>The read-only neighborhood query\<close>

text \<open>
  \<open>get_neighborhood\<close>: one round of the loop over \<open>i\<close>, on the array
  \<open>neighborhood\<close>, the output \<open>patch_index\<close> and the counter \<open>index\<close>. A null pointer
  is \<open>None\<close>.
\<close>

definition get_neighborhood_step ::
  "('d, 'c) map_state \<Rightarrow> position list \<Rightarrow> nat
     \<Rightarrow> 'd patch option list \<times> nat \<times> nat \<Rightarrow> 'd patch option list \<times> nat \<times> nat" where
  "get_neighborhood_step m patch_positions i st =
     (case st of (neighborhood, patch_index, index) \<Rightarrow>
        (let neighborhood' = neighborhood[index := get_patch_if_exists m (patch_positions ! i)]
         in if neighborhood' ! index \<noteq> None
            then (neighborhood', (if patch_index = i then index else patch_index), index + 1)
            else (neighborhood', patch_index, index)))"

text \<open>
  The result is the number of patches found, the array \<open>neighborhood\<close> (four null
  pointers before the call), the four patch positions and \<open>patch_index\<close>.
\<close>

definition get_neighborhood ::
  "position \<Rightarrow> ('d, 'c) map_state \<Rightarrow> nat \<times> 'd patch option list \<times> position list \<times> nat" where
  "get_neighborhood world_position m =
     (let (patch_index0, patch_positions) = get_neighborhood_positions world_position (map_n m);
          (neighborhood, patch_index, index) =
             fold (get_neighborhood_step m patch_positions) [0, 1, 2, 3]
               ([None, None, None, None], patch_index0, 0)
      in (index, neighborhood, patch_positions, patch_index))"

section \<open>The fixing protocol\<close>

text \<open>The nine positions that \<open>fix_patches\<close> adds for one patch, in the order of the code.\<close>

definition halo :: "position \<Rightarrow> position list" where
  "halo p = [left (up p), up p, right (up p), left p, p, right p,
             left (down p), down p, right (down p)]"

text \<open>
  Modelled from the spec: \<open>insertion_sort\<close>, \<open>unique\<close> and \<open>array::remove\<close> belong to
  the core library, which is not among the sources. \<open>insertion_sort\<close> sorts by
  \<open>operator <\<close>, \<open>unique\<close> keeps the first element of every run of equal neighbours of
  a sorted array, and \<open>remove(i)\<close> takes the element at index \<open>i\<close> out. The spec
  says only that the position is removed: here the last element moves into its place,
  as in an array that a removal does not keep in order, and no statement below depends
  on the order of the elements that are left.
\<close>

fun insert_sorted :: "position \<Rightarrow> position list \<Rightarrow> position list" where
  "insert_sorted x [] = [x]"
| "insert_sorted x (y # ys) =
     (if position_less x y then x # y # ys else y # insert_sorted x ys)"

definition insertion_sort :: "position list \<Rightarrow> position list" where
  "insertion_sort xs = foldl (\<lambda>sorted_prefix x. insert_sorted x sorted_prefix) [] xs"

text \<open>An array of positions is sorted when no element is less than an earlier one.\<close>

abbreviation position_sorted :: "position list \<Rightarrow> bool" where
  "position_sorted \<equiv> sorted_wrt (\<lambda>a b. \<not> position_less b a)"

fun unique :: "position list \<Rightarrow> position list" where
  "unique [] = []"
| "unique [x] = [x]"
| "unique (x # y # xs) = (if x = y then unique (x # xs) else x # unique (y # xs))"

definition array_remove :: "nat \<Rightarrow> 'a list \<Rightarrow> 'a list" where
  "array_remove i xs =
     (if Suc i = length xs then butlast xs else (butlast xs)[i := last xs])"

text \<open>
  The first loop of \<open>fix_patches\<close>: every input patch that is not fixed adds its nine
  positions, and the array is sorted and deduplicated after each patch.
\<close>

fun collect_positions ::
  "('d, 'c) map_state \<Rightarrow> position list \<Rightarrow> position list \<Rightarrow> position list" where
  "collect_positions m [] positions_to_sample = positions_to_sample"
| "collect_positions m (p # ps) positions_to_sample =
     (if patch_is_fixed m p then collect_positions m ps positions_to_sample
      else collect_positions m ps (unique (insertion_sort (positions_to_sample @ halo p))))"

text \<open>
  The second loop: every position is looked up or created, and a position whose patch
  is fixed is removed. After a removal the same index is looked at again (\<open>i--\<close> and
  then \<open>i++\<close>).
\<close>

function prune_fixed ::
  "'d \<Rightarrow> nat \<Rightarrow> position list \<Rightarrow> ('d, 'c) map_state \<Rightarrow> position list \<times> ('d, 'c) map_state" where
  "prune_fixed init_data i positions_to_sample m =
     (if i < length positions_to_sample then
        (let m' = get_or_make_patch init_data (positions_to_sample ! i) m
         in if patch_is_fixed m' (positions_to_sample ! i)
            then prune_fixed init_data i (array_remove i positions_to_sample) m'
            else prune_fixed init_data (i + 1) positions_to_sample m')
      else (positions_to_sample, m))"
  by pat_completeness auto
termination
  by (relation "measure (\<lambda>(init_data, i, positions_to_sample, m). length positions_to_sample - i)")
     (auto simp: array_remove_def)

declare prune_fixed.simps [simp del]

text \<open>
  The positions that \<open>fix_patches\<close> hands to the constructor of the Gibbs field, and
  the map after the second loop.
\<close>

definition positions_to_sample ::
  "'d \<Rightarrow> position list \<Rightarrow> ('d, 'c) map_state \<Rightarrow> position list \<times> ('d, 'c) map_state" where
  "positions_to_sample init_data patch_positions m =
     prune_fixed init_data 0 (collect_positions m patch_positions []) m"

text \<open>
  \<open>fix_patches\<close>. The class \<open>gibbs_field\<close> is declared in \<open>gibbs_field.h\<close>, which is
  not among the sources: \<open>sample positions\<close> is one call of \<open>field.sample(rng)\<close> on the
  field constructed from the map, its cache and the positions, a function from the map
  to the map. The input patches are given by their positions. The number of sweeps is
  the \<open>gibbs_iterations\<close> of the map the loop starts from.
\<close>

definition fix_patches ::
  "'d \<Rightarrow> (position list \<Rightarrow> ('d, 'c) map_state \<Rightarrow> ('d, 'c) map_state)
     \<Rightarrow> position list \<Rightarrow> ('d, 'c) map_state \<Rightarrow> ('d, 'c) map_state" where
  "fix_patches init_data sample patch_positions m =
     (let (positions, m1) = positions_to_sample init_data patch_positions m;
          m2 = (sample positions ^^ unat (gibbs_iterations m1)) m1
      in fold set_fixed patch_positions m2)"

text \<open>
  \<open>get_fixed_neighborhood\<close>: the index of the patch that contains the world position,
  the four patch positions, and the map; \<open>neighborhood[i]\<close> refers to the patch at
  \<open>patch_positions[i]\<close>.
\<close>

definition get_fixed_neighborhood ::
  "'d \<Rightarrow> (position list \<Rightarrow> ('d, 'c) map_state \<Rightarrow> ('d, 'c) map_state)
     \<Rightarrow> position \<Rightarrow> ('d, 'c) map_state \<Rightarrow> nat \<times> position list \<times> ('d, 'c) map_state" where
  "get_fixed_neighborhood init_data sample world_position m =
     (let (index, patch_positions) = get_neighborhood_positions world_position (map_n m);
          m1 = fold (get_or_make_patch init_data) patch_positions m;
          m2 = fix_patches init_data sample patch_positions m1
      in (index, patch_positions, m2))"

text \<open>
  Modelled from the spec: what the map expects of the sampler, which is not among the
  sources. The sampler mutates the item lists of the patches it was given and nothing
  else of the patch index: it adds and removes no patch, changes no \<open>fixed\<close> flag,
  and leaves every patch outside its positions as it is.
\<close>

definition index_shape :: "('d, 'c) map_state \<Rightarrow> (position \<times> bool) list" where
  "index_shape m = map (\<lambda>(q, p). (q, fixed p)) (patches m)"

definition sampler_contract ::
  "(position list \<Rightarrow> ('d, 'c) map_state \<Rightarrow> ('d, 'c) map_state) \<Rightarrow> bool" where
  "sampler_contract sample \<longleftrightarrow>
     (\<forall>positions m.
        index_shape (sample positions m) = index_shape m
        \<and> (\<forall>q. q \<notin> set positions \<longrightarrow>
               map_of (patches (sample positions m)) q = map_of (patches m) q))"

text \<open>
  Two samplers to run the map with: one that changes nothing, and one that puts an
  item of type 0 at the patch position into every patch it was given and draws once
  from the generator.
\<close>

definition idle_sampler ::
  "position list \<Rightarrow> ('d, 'c) map_state \<Rightarrow> ('d, 'c) map_state" where
  "idle_sampler positions m = m"

definition stamp_sampler ::
  "position list \<Rightarrow> ('d, 'c) map_state \<Rightarrow> ('d, 'c) map_state" where
  "stamp_sampler positions m =
     m\<lparr>patches := map (\<lambda>(q, p). if q \<in> set positions
                          then (q, p\<lparr>items := \<lparr>item_type = 0, location = q,
                                               creation_time = 0, deletion_time = 0\<rparr> # items p\<rparr>)
                          else (q, p)) (patches m),
        rng := minstd_next (rng m)\<rparr>"

section \<open>Construction\<close>

text \<open>
  The constructor \<open>map::map\<close> with a seed. \<open>ndebug\<close> says whether \<open>NDEBUG\<close> is
  defined, \<open>now\<close> is what \<open>milliseconds()\<close> returns, and \<open>make_cache\<close> is the
  constructor of \<open>gibbs_field_cache\<close>. The generator is default-constructed (its
  state is 1), and the body seeds it twice in a row: with \<open>seed\<close>, and then with 0 or
  with the clock.
\<close>

definition map_ctor ::
  "('i list \<Rightarrow> u32 \<Rightarrow> 'c) \<Rightarrow> u32 \<Rightarrow> u32 \<Rightarrow> 'i list \<Rightarrow> nat \<Rightarrow> bool \<Rightarrow> nat \<Rightarrow> ('d, 'c) map_state" where
  "map_ctor make_cache n iterations item_types seed ndebug now =
     (let m = \<lparr>patches = [], map_n = n, gibbs_iterations = iterations,
               rng = 1, cache = make_cache item_types n\<rparr>;
          m = m\<lparr>rng := minstd_seed seed\<rparr>
      in if \<not> ndebug then m\<lparr>rng := minstd_seed 0\<rparr>
         else m\<lparr>rng := minstd_seed now\<rparr>)"

text \<open>
  The free function \<open>init\<close> with a seed constructs the generator from the seed.
\<close>

definition init_map ::
  "('i list \<Rightarrow> u32 \<Rightarrow> 'c) \<Rightarrow> u32 \<Rightarrow> u32 \<Rightarrow> 'i list \<Rightarrow> nat \<Rightarrow> ('d, 'c) map_state" where
  "init_map make_cache n iterations item_types seed =
     \<lparr>patches = [], map_n = n, gibbs_iterations = iterations,
      rng = minstd_seed seed, cache = make_cache item_types n\<rparr>"

section \<open>Tiles and the scenario map\<close>

text \<open>
  The tile of a patch position \<open>p\<close> for patch size \<open>n\<close> is the lattice region
  \<open>[p.x * n, (p.x + 1) * n) \<times> [p.y * n, (p.y + 1) * n)\<close>.
\<close>

definition in_tile :: "u32 \<Rightarrow> position \<Rightarrow> position \<Rightarrow> bool" where
  "in_tile n p b \<longleftrightarrow>
     sint (pos_x p) * uint n \<le> sint (pos_x b) \<and> sint (pos_x b) < (sint (pos_x p) + 1) * uint n
   \<and> sint (pos_y p) * uint n \<le> sint (pos_y b) \<and> sint (pos_y b) < (sint (pos_y p) + 1) * uint n"

text \<open>
  The map of the scenarios: \<open>n = 8\<close>, ten sweeps, seed 42, one item type, a payload
  and a cache with no content, constructed in a debug build.
\<close>

definition no_cache :: "unit list \<Rightarrow> u32 \<Rightarrow> unit" where
  "no_cache item_types n = ()"

definition scenario_map :: "(unit, unit) map_state" where
  "scenario_map = map_ctor no_cache 8 10 [()] 42 False 0"

section \<open>Sequences of queries\<close>

text \<open>
  The queries of the map that are modelled, and the map after a query.
  \<open>get_neighborhood\<close> reads the map and leaves it as it is. The member functions
  \<open>get_state\<close> and \<open>get_items\<close> are \<open>const\<close> and are not modelled.
\<close>

datatype query = Get_fixed_neighborhood position | Get_neighborhood position

fun run_query ::
  "'d \<Rightarrow> (position list \<Rightarrow> ('d, 'c) map_state \<Rightarrow> ('d, 'c) map_state)
     \<Rightarrow> query \<Rightarrow> ('d, 'c) map_state \<Rightarrow> ('d, 'c) map_state" where
  "run_query init_data sample (Get_fixed_neighborhood w) m =
     snd (snd (get_fixed_neighborhood init_data sample w m))"
| "run_query init_data sample (Get_neighborhood w) m = m"

text \<open>
  The entries of the patch index outside a block of positions, each with its
  \<open>fixed\<close> flag.
\<close>

definition patches_outside :: "position list \<Rightarrow> ('d, 'c) map_state \<Rightarrow> (position \<times> bool) list" where
  "patches_outside block m = filter (\<lambda>(q, f). q \<notin> set block) (index_shape m)"

section \<open>The iteration that the sampler asks for\<close>

text \<open>
  \<open>iterate_neighborhoods\<close>. A pointer to a patch is the position of the patch, and
  the null pointer is \<open>None\<close>. The four arrays of pointers start with the patch
  itself, null when it is absent, and go on with the neighbours that exist, in the
  order in which the code appends them; the count is the length of the list.
\<close>

definition patch_pointer :: "('d, 'c) map_state \<Rightarrow> position \<Rightarrow> position option" where
  "patch_pointer m patch_position =
     (case get_patch_if_exists m patch_position of None \<Rightarrow> None | Some p \<Rightarrow> Some patch_position)"

definition present :: "position option list \<Rightarrow> position option list" where
  "present pointers = filter (\<lambda>p. p \<noteq> None) pointers"

definition quadrant_neighborhoods ::
  "('d, 'c) map_state \<Rightarrow> position
     \<Rightarrow> position option list \<times> position option list
        \<times> position option list \<times> position option list" where
  "quadrant_neighborhoods m patch_position =
     (let current = patch_pointer m patch_position;
          top = patch_pointer m (up patch_position);
          bottom = patch_pointer m (down patch_position);
          left_patch = patch_pointer m (left patch_position);
          right_patch = patch_pointer m (right patch_position);
          top_left = patch_pointer m (left (up patch_position));
          top_right = patch_pointer m (right (up patch_position));
          bottom_left = patch_pointer m (left (down patch_position));
          bottom_right = patch_pointer m (right (down patch_position));
          bottom_left_neighborhood = current # present [left_patch, bottom, bottom_left];
          top_left_neighborhood = current # present [left_patch, top, top_left];
          bottom_right_neighborhood = current # present [right_patch, bottom, bottom_right];
          top_right_neighborhood = current # present [right_patch, top, top_right]
      in (bottom_left_neighborhood, top_left_neighborhood,
          bottom_right_neighborhood, top_right_neighborhood))"

text \<open>
  The callback \<open>process_neighborhood_function\<close> takes the two cell coordinates, an
  array of pointers and its count. It is a closure: it acts on the map and on what it
  captured, of type \<open>'e\<close>.
\<close>

type_synonym ('d, 'c, 'e) process_neighborhood =
  "nat \<Rightarrow> nat \<Rightarrow> position option list \<Rightarrow> nat
     \<Rightarrow> ('d, 'c) map_state \<times> 'e \<Rightarrow> ('d, 'c) map_state \<times> 'e"

text \<open>
  One call of the callback in the \<open>switch\<close>: both coordinates are drawn from the
  map's generator and reduced modulo \<open>half_n\<close>. C++ leaves the order of the two
  draws open; here the first argument is drawn first.
\<close>

definition call_with_draws ::
  "('d, 'c, 'e) process_neighborhood \<Rightarrow> nat \<Rightarrow> nat \<Rightarrow> nat \<Rightarrow> position option list
     \<Rightarrow> ('d, 'c) map_state \<times> 'e \<Rightarrow> ('d, 'c) map_state \<times> 'e" where
  "call_with_draws process_neighborhood_function half_n x_offset y_offset neighborhood st =
     (let (m, e) = st;
          (a, m) = rng_draw m;
          (b, m) = rng_draw m
      in process_neighborhood_function (a mod half_n + x_offset) (b mod half_n + y_offset)
           neighborhood (length neighborhood) (m, e))"

text \<open>
  One round of the loop. The \<open>switch\<close> on \<open>rng() % 4\<close> has no \<open>break\<close>:
  control enters at the case of the selector and runs through every later case, so the
  call of case \<open>c\<close> is made when the selector is at most \<open>c\<close>.
\<close>

definition iterate_step ::
  "('d, 'c, 'e) process_neighborhood \<Rightarrow> nat
     \<Rightarrow> position option list \<times> position option list
        \<times> position option list \<times> position option list
     \<Rightarrow> ('d, 'c) map_state \<times> 'e \<Rightarrow> ('d, 'c) map_state \<times> 'e" where
  "iterate_step f half_n neighborhoods st =
     (let (bottom_left_neighborhood, top_left_neighborhood,
           bottom_right_neighborhood, top_right_neighborhood) = neighborhoods;
          (m, e) = st;
          (k, m) = rng_draw m;
          selector = k mod 4;
          st = (m, e);
          st = (if selector \<le> 0
                then call_with_draws f half_n 0 0 bottom_left_neighborhood st else st);
          st = (if selector \<le> 1
                then call_with_draws f half_n 0 half_n top_left_neighborhood st else st);
          st = (if selector \<le> 2
                then call_with_draws f half_n half_n 0 bottom_right_neighborhood st else st);
          st = (if selector \<le> 3
                then call_with_draws f half_n half_n half_n top_right_neighborhood st else st)
      in st)"

text \<open>
  The loop runs \<open>n * n\<close> times, the product taken in \<open>unsigned int\<close>.
\<close>

definition iterate_neighborhoods ::
  "('d, 'c, 'e) process_neighborhood \<Rightarrow> position
     \<Rightarrow> ('d, 'c) map_state \<times> 'e \<Rightarrow> ('d, 'c) map_state \<times> 'e" where
  "iterate_neighborhoods process_neighborhood_function patch_position st =
     (let neighborhoods = quadrant_neighborhoods (fst st) patch_position;
          half_n = map_n (fst st) div 2
      in (iterate_step process_neighborhood_function (unat half_n) neighborhoods
            ^^ unat (map_n (fst st) * map_n (fst st))) st)"

text \<open>
  A callback that appends its arguments to a log, and a map with \<open>n = 2\<close> that
  holds the patch \<open>(0, 0)\<close>, constructed in a debug build.
\<close>

type_synonym call_record = "nat \<times> nat \<times> position option list \<times> nat"

definition record_call :: "('d, 'c, call_record list) process_neighborhood" where
  "record_call x y neighborhood neighbor_count st =
     (fst st, snd st @ [(x, y, neighborhood, neighbor_count)])"

definition two_by_two_map :: "(unit, unit) map_state" where
  "two_by_two_map =
     get_or_make_patch () \<lparr>pos_x = 0, pos_y = 0\<rparr> (map_ctor no_cache 2 10 [()] 42 False 0)"

section \<open>The snapshot codec\<close>

text \<open>
  Modelled from the spec: the stream and the \<open>read\<close> and \<open>write\<close> functions
  for integers, booleans, character arrays, arrays, positions and hash maps belong to
  the core library and to \<open>position.h\<close>, which are not among the sources. The
  width and byte order of a value are the stream's business, so a stream is a list of
  tokens, one per value written; a \<open>read\<close> fails (\<open>None\<close>) when the stream
  ends or holds a value of another type. A write to a list does not fail. An array is
  its length and its elements; a hash map is its size and, for every entry, the key
  and the value, and reading puts the entries of a stream with distinct keys into
  the table in the order of the stream.
\<close>

datatype token = Size_t nat | Char_t char | Uint u32 | Int64 i64 | Uint64 u64 | Bool_t bool

type_synonym 'a reader = "token list \<Rightarrow> ('a \<times> token list) option"

fun read_size :: "nat reader" where
  "read_size (Size_t k # ts) = Some (k, ts)"
| "read_size ts = None"

fun read_uint :: "u32 reader" where
  "read_uint (Uint v # ts) = Some (v, ts)"
| "read_uint ts = None"

fun read_int64 :: "i64 reader" where
  "read_int64 (Int64 v # ts) = Some (v, ts)"
| "read_int64 ts = None"

fun read_uint64 :: "u64 reader" where
  "read_uint64 (Uint64 v # ts) = Some (v, ts)"
| "read_uint64 ts = None"

fun read_bool :: "bool reader" where
  "read_bool (Bool_t v # ts) = Some (v, ts)"
| "read_bool ts = None"

fun read_chars :: "nat \<Rightarrow> string reader" where
  "read_chars 0 ts = Some ([], ts)"
| "read_chars (Suc k) (Char_t c # ts) =
     (case read_chars k ts of None \<Rightarrow> None | Some (cs, ts') \<Rightarrow> Some (c # cs, ts'))"
| "read_chars (Suc k) ts = None"

fun read_array :: "'a reader \<Rightarrow> nat \<Rightarrow> 'a list reader" where
  "read_array read_element 0 ts = Some ([], ts)"
| "read_array read_element (Suc k) ts =
     (case read_element ts of
        None \<Rightarrow> None
      | Some (v, ts') \<Rightarrow>
          (case read_array read_element k ts' of
             None \<Rightarrow> None
           | Some (vs, ts'') \<Rightarrow> Some (v # vs, ts'')))"

definition write_position :: "position \<Rightarrow> token list" where
  "write_position p = [Int64 (pos_x p), Int64 (pos_y p)]"

definition read_position :: "position reader" where
  "read_position ts = do {
     (vx, ts) \<leftarrow> read_int64 ts;
     (vy, ts) \<leftarrow> read_int64 ts;
     Some (\<lparr>pos_x = vx, pos_y = vy\<rparr>, ts)
   }"

text \<open>\<open>write(const item&)\<close> and \<open>read(item&)\<close> of \<open>map.h\<close>.\<close>

definition write_item :: "item \<Rightarrow> token list" where
  "write_item i = Uint (item_type i) # write_position (location i)
                    @ [Uint64 (creation_time i), Uint64 (deletion_time i)]"

definition read_item :: "item reader" where
  "read_item ts = do {
     (t, ts) \<leftarrow> read_uint ts;
     (l, ts) \<leftarrow> read_position ts;
     (c, ts) \<leftarrow> read_uint64 ts;
     (d, ts) \<leftarrow> read_uint64 ts;
     Some (\<lparr>item_type = t, location = l, creation_time = c, deletion_time = d\<rparr>, ts)
   }"

definition write_items :: "item list \<Rightarrow> token list" where
  "write_items xs = Size_t (length xs) # concat (map write_item xs)"

definition read_items :: "item list reader" where
  "read_items ts = do {
     (k, ts) \<leftarrow> read_size ts;
     read_array read_item k ts
   }"

text \<open>
  \<open>write(const patch<Data>&)\<close> and \<open>read(patch<Data>&)\<close> of \<open>map.h\<close>; the codec
  of the payload is the caller's \<open>write_data\<close> and \<open>read_data\<close>.
\<close>

definition write_patch :: "('d \<Rightarrow> token list) \<Rightarrow> 'd patch \<Rightarrow> token list" where
  "write_patch write_data p = Bool_t (fixed p) # write_items (items p) @ write_data (data p)"

definition read_patch :: "'d reader \<Rightarrow> 'd patch reader" where
  "read_patch read_data ts = do {
     (f, ts) \<leftarrow> read_bool ts;
     (xs, ts) \<leftarrow> read_items ts;
     (d, ts) \<leftarrow> read_data ts;
     Some (\<lparr>items = xs, fixed = f, data = d\<rparr>, ts)
   }"

definition write_entry :: "('d \<Rightarrow> token list) \<Rightarrow> position \<times> 'd patch \<Rightarrow> token list" where
  "write_entry write_data e = write_position (fst e) @ write_patch write_data (snd e)"

definition read_entry :: "'d reader \<Rightarrow> (position \<times> 'd patch) reader" where
  "read_entry read_data ts = do {
     (q, ts) \<leftarrow> read_position ts;
     (p, ts) \<leftarrow> read_patch read_data ts;
     Some ((q, p), ts)
   }"

definition write_patches :: "('d \<Rightarrow> token list) \<Rightarrow> (position \<times> 'd patch) list \<Rightarrow> token list" where
  "write_patches write_data es = Size_t (length es) # concat (map (write_entry write_data) es)"

definition read_patches :: "'d reader \<Rightarrow> (position \<times> 'd patch) list reader" where
  "read_patches read_data ts = do {
     (k, ts) \<leftarrow> read_size ts;
     read_array (read_entry read_data) k ts
   }"

text \<open>
  The text that \<open>operator <<\<close> writes for a \<open>std::minstd_rand\<close> is its state in
  decimal, and \<open>operator >>\<close> reads the leading decimal digits back.
\<close>

definition digit_char :: "nat \<Rightarrow> char" where
  "digit_char d = char_of (48 + d)"

definition is_digit :: "char \<Rightarrow> bool" where
  "is_digit c \<longleftrightarrow> 48 \<le> (of_char c :: nat) \<and> (of_char c :: nat) \<le> 57"

definition digit_value :: "char \<Rightarrow> nat" where
  "digit_value c = of_char c - 48"

function decimal :: "nat \<Rightarrow> string" where
  "decimal k = (if k < 10 then [digit_char k] else decimal (k div 10) @ [digit_char (k mod 10)])"
  by pat_completeness auto
termination
  by (relation "measure id") auto

declare decimal.simps [simp del]

definition parse_decimal :: "string \<Rightarrow> nat" where
  "parse_decimal s = foldl (\<lambda>a c. 10 * a + digit_value c) 0 (takeWhile is_digit s)"

text \<open>
  \<open>write(const map&)\<close> and \<open>read(map&)\<close> of \<open>map.h\<close>. The reader casts the
  length of the text to \<open>unsigned int\<close>, and builds the cache from the item types
  of the caller.
\<close>

definition write_map ::
  "('d \<Rightarrow> token list) \<Rightarrow> ('d, 'c) map_state \<Rightarrow> token list" where
  "write_map write_data world =
     (let data = decimal (rng world)
      in Size_t (length data) # map Char_t data
           @ Uint (map_n world) # Uint (gibbs_iterations world)
           # write_patches write_data (patches world))"

definition read_map ::
  "('i list \<Rightarrow> u32 \<Rightarrow> 'c) \<Rightarrow> 'd reader \<Rightarrow> 'i list \<Rightarrow> ('d, 'c) map_state reader" where
  "read_map make_cache read_data item_types ts = do {
     (length, ts) \<leftarrow> read_size ts;
     (state, ts) \<leftarrow> read_chars (length mod 2 ^ 32) ts;
     (n, ts) \<leftarrow> read_uint ts;
     (iterations, ts) \<leftarrow> read_uint ts;
     (ps, ts) \<leftarrow> read_patches read_data ts;
     Some (\<lparr>patches = ps, map_n = n, gibbs_iterations = iterations,
            rng = parse_decimal state, cache = make_cache item_types n\<rparr>, ts)
   }"

text \<open>
  A payload codec and a map to run the snapshot functions with: the payload is an
  \<open>unsigned int\<close>, written as one value.
\<close>

definition write_u32_data :: "u32 \<Rightarrow> token list" where
  "write_u32_data d = [Uint d]"

definition snapshot_example :: "(u32, unit) map_state" where
  "snapshot_example =
     \<lparr>patches = [(\<lparr>pos_x = 0, pos_y = - 1\<rparr>,
                   \<lparr>items = [\<lparr>item_type = 0, location = \<lparr>pos_x = 3, pos_y = - 2\<rparr>,
                                creation_time = 0, deletion_time = 0\<rparr>],
                      fixed = True, data = 7\<rparr>),
                 (\<lparr>pos_x = 1, pos_y = - 1\<rparr>, \<lparr>items = [], fixed = False, data = 0\<rparr>)],
      map_n = 8, gibbs_iterations = 10, rng = 2027382, cache = ()\<rparr>"

text \<open>
  A map with \<open>n = 8\<close> that holds the patches \<open>(-1, 0)\<close> and \<open>(0, -1)\<close>, told
  apart by their payloads, and no patch \<open>(0, 0)\<close>.
\<close>

definition gap_map :: "(u32, unit) map_state" where
  "gap_map =
     \<lparr>patches = [(\<lparr>pos_x = - 1, pos_y = 0\<rparr>, \<lparr>items = [], fixed = False, data = 1\<rparr>),
                 (\<lparr>pos_x = 0, pos_y = - 1\<rparr>, \<lparr>items = [], fixed = False, data = 2\<rparr>)],
      map_n = 8, gibbs_iterations = 10, rng = 1, cache = ()\<rparr>"

section \<open>Floored division is the floor\<close>

lemma smod_zero_iff:
  fixes a b :: int
  assumes "0 < b"
  shows "a smod b = 0 \<longleftrightarrow> b dvd a"
  using assms by (auto simp: signed_modulo_int_def sgn_if mod_eq_0_iff_dvd zabs_def)

lemma floor_from_trunc:
  fixes a b :: int
  assumes "0 < b"
  shows "a div b = (if a < 0 \<and> a smod b \<noteq> 0 then a sdiv b - 1 else a sdiv b)"
    and "a mod b = (if a < 0 \<and> a smod b \<noteq> 0 then a smod b + b else a smod b)"
  using assms
  by (auto simp: divide_int_eq_signed_divide_int [of a b]
      modulo_int_eq_signed_modulo_int [of a b] smod_zero_iff sgn_if)

lemma sint_word_of_int_i64:
  "- (2 ^ 63) \<le> k \<Longrightarrow> k < 2 ^ 63 \<Longrightarrow> sint (word_of_int k :: i64) = k"
  by (simp add: sint_sbintrunc' signed_take_bit_int_eq_self_iff)

lemma nonneg_ge_min_i64: "0 \<le> k \<Longrightarrow> - (2 ^ 63) \<le> (k :: int)"
  by (rule order_trans [of _ 0]) simp_all

lemma neg_lt_max_i64: "k < 0 \<Longrightarrow> k < (2 ^ 63 :: int)"
  by (rule less_trans [of _ 0]) simp_all

lemma uint_u32_bound: "uint (b :: u32) < 2 ^ 32"
  using uint_bounded [of b] by simp

lemma uint_u32_pos: "(b :: u32) \<noteq> 0 \<Longrightarrow> 0 < uint b"
  by (metis unsigned_0 word_gt_0 word_less_def)

lemma ucast_u32_i64: "(ucast (b :: u32) :: i64) = word_of_int (uint b)"
  by simp

lemma sint_ucast_u32: "sint (ucast (b :: u32) :: i64) = uint b"
proof -
  have "uint b < 2 ^ 63" using uint_u32_bound [of b] by simp
  moreover have "- (2 ^ 63) \<le> uint b" by (rule nonneg_ge_min_i64) simp
  ultimately show ?thesis by (simp only: ucast_u32_i64 sint_word_of_int_i64)
qed

lemma smod_abs_less:
  fixes a b :: int
  assumes "0 < b"
  shows "\<bar>a smod b\<bar> < b"
  using assms by (simp add: signed_modulo_int_def abs_mult abs_sgn_eq)

lemma sint_i64_range: "- (2 ^ 63) \<le> sint (a :: i64) \<and> sint a < 2 ^ 63"
  using sint_ge [of a] sint_lt [of a] by simp

lemma word_of_int_smod_eq_0_iff:
  fixes a :: i64 and b :: u32
  assumes "b \<noteq> 0"
  shows "(word_of_int (sint a smod uint b) :: i64) = 0 \<longleftrightarrow> sint a smod uint b = 0"
proof -
  have pos: "0 < uint b" by (rule uint_u32_pos [OF assms])
  have "\<bar>sint a smod uint b\<bar> < uint b" by (rule smod_abs_less [OF pos])
  then have r: "- (2 ^ 63) \<le> sint a smod uint b" "sint a smod uint b < 2 ^ 63"
    using uint_u32_bound [of b] by auto
  have "sint (word_of_int (sint a smod uint b) :: i64) = sint a smod uint b"
    by (rule sint_word_of_int_i64 [OF r])
  then show ?thesis by (metis sint_0 word_of_int_0)
qed

lemma floored_div_with_remainder_eq:
  assumes "b \<noteq> 0"
  shows "floored_div_with_remainder a b =
           (word_of_int (sint a div uint b), word_of_int (sint a mod uint b))"
proof -
  have pos: "0 < uint b" by (rule uint_u32_pos [OF assms])
  have neg: "a <s 0 \<longleftrightarrow> sint a < 0" by (simp add: word_sless_alt)
  show ?thesis
    unfolding floored_div_with_remainder_def lldiv_def sint_ucast_u32
    by (simp add: neg word_of_int_smod_eq_0_iff [OF assms]
        floor_from_trunc [OF pos, of "sint a"] ucast_u32_i64 del: of_int_uint)
qed

lemma floored_div_eq:
  assumes "b \<noteq> 0"
  shows "floored_div a b = word_of_int (sint a div uint b)"
proof -
  have pos: "0 < uint b" by (rule uint_u32_pos [OF assms])
  have neg: "a <s 0 \<longleftrightarrow> sint a < 0" by (simp add: word_sless_alt)
  show ?thesis
    unfolding floored_div_def lldiv_def sint_ucast_u32
    by (simp add: neg word_of_int_smod_eq_0_iff [OF assms]
        floor_from_trunc [OF pos, of "sint a"])
qed

lemma sint_floor_quot:
  fixes a :: i64 and b :: u32
  assumes "b \<noteq> 0"
  shows "sint (word_of_int (sint a div uint b) :: i64) = sint a div uint b"
proof -
  have pos: "0 < uint b" by (rule uint_u32_pos [OF assms])
  have one: "1 \<le> uint b" using pos by simp
  have lo: "- (2 ^ 63) \<le> sint a div uint b"
  proof (cases "sint a < 0")
    case True
    have "sint a div 1 \<le> sint a div uint b"
      by (rule zdiv_mono2_neg [OF True _ one]) simp
    then show ?thesis using sint_i64_range [of a] by simp
  next
    case False
    then have "0 \<le> sint a div uint b" using pos by (simp add: pos_imp_zdiv_nonneg_iff)
    then show ?thesis by (rule nonneg_ge_min_i64)
  qed
  have hi: "sint a div uint b < 2 ^ 63"
  proof (cases "sint a < 0")
    case True
    then have "sint a div uint b < 0" using pos by (simp add: div_neg_pos_less0)
    then show ?thesis by (rule neg_lt_max_i64)
  next
    case False
    then have "0 \<le> sint a" by simp
    then have "sint a div uint b \<le> sint a div 1"
      by (rule zdiv_mono2 [OF _ _ one]) simp
    then show ?thesis using sint_i64_range [of a] by simp
  qed
  from lo hi show ?thesis by (rule sint_word_of_int_i64)
qed

lemma sint_floor_rem:
  fixes a :: i64 and b :: u32
  assumes "b \<noteq> 0"
  shows "sint (word_of_int (sint a mod uint b) :: i64) = sint a mod uint b"
proof -
  have pos: "0 < uint b" by (rule uint_u32_pos [OF assms])
  have "0 \<le> sint a mod uint b" "sint a mod uint b < uint b"
    using pos by simp_all
  then have "- (2 ^ 63) \<le> sint a mod uint b" "sint a mod uint b < 2 ^ 63"
    using uint_u32_bound [of b] by auto
  then show ?thesis by (rule sint_word_of_int_i64)
qed

lemma world_to_patch_coordinates_within_eq:
  assumes "n \<noteq> 0"
  shows "world_to_patch_coordinates_within w n =
           (\<lparr>pos_x = word_of_int (sint (pos_x w) div uint n),
             pos_y = word_of_int (sint (pos_y w) div uint n)\<rparr>,
            \<lparr>pos_x = word_of_int (sint (pos_x w) mod uint n),
             pos_y = word_of_int (sint (pos_y w) mod uint n)\<rparr>)"
  by (simp add: world_to_patch_coordinates_within_def floored_div_with_remainder_eq [OF assms])

lemma world_to_patch_coordinates_eq:
  assumes "n \<noteq> 0"
  shows "world_to_patch_coordinates w n =
           \<lparr>pos_x = word_of_int (sint (pos_x w) div uint n),
            pos_y = word_of_int (sint (pos_y w) div uint n)\<rparr>"
  by (simp add: world_to_patch_coordinates_def floored_div_eq [OF assms])

text \<open>
  C3. For every world position \<open>w\<close> with signed 64-bit components and every patch size
  \<open>n \<ge> 1\<close>, \<open>world_to_patch_coordinates\<close> returns a patch position \<open>p\<close> and a position
  within the patch \<open>r\<close> with \<open>r.x\<close> and \<open>r.y\<close> in \<open>[0, n)\<close>, \<open>p.x * n + r.x = w.x\<close> and
  \<open>p.y * n + r.y = w.y\<close> as integers; the quotient is the floor of the division, also
  for negative coordinates: it is the truncated quotient, decremented exactly when the
  coordinate is negative and the truncated remainder is not zero, and then the
  remainder is the truncated remainder increased by \<open>n\<close>. Neither adjustment
  overflows.
\<close>

theorem world_to_patch_coordinates_round_trip:
  assumes "n \<noteq> 0"
    and "world_to_patch_coordinates_within w n = (p, r)"
  shows "0 \<le> sint (pos_x r) \<and> sint (pos_x r) < uint n
       \<and> 0 \<le> sint (pos_y r) \<and> sint (pos_y r) < uint n
       \<and> sint (pos_x p) * uint n + sint (pos_x r) = sint (pos_x w)
       \<and> sint (pos_y p) * uint n + sint (pos_y r) = sint (pos_y w)
       \<and> sint (pos_x p) = sint (pos_x w) div uint n
       \<and> sint (pos_y p) = sint (pos_y w) div uint n
       \<and> sint (pos_x p) = sint (pos_x w) sdiv uint n
             - of_bool (sint (pos_x w) < 0 \<and> sint (pos_x w) smod uint n \<noteq> 0)
       \<and> sint (pos_x r) = sint (pos_x w) smod uint n
             + uint n * of_bool (sint (pos_x w) < 0 \<and> sint (pos_x w) smod uint n \<noteq> 0)
       \<and> sint (pos_y p) = sint (pos_y w) sdiv uint n
             - of_bool (sint (pos_y w) < 0 \<and> sint (pos_y w) smod uint n \<noteq> 0)
       \<and> sint (pos_y r) = sint (pos_y w) smod uint n
             + uint n * of_bool (sint (pos_y w) < 0 \<and> sint (pos_y w) smod uint n \<noteq> 0)
       \<and> world_to_patch_coordinates w n = p"
proof -
  have pos: "0 < uint n" by (rule uint_u32_pos [OF assms(1)])
  have trunc: "a div uint n = a sdiv uint n - of_bool (a < 0 \<and> a smod uint n \<noteq> 0)"
    "a mod uint n = a smod uint n + uint n * of_bool (a < 0 \<and> a smod uint n \<noteq> 0)" for a
    using floor_from_trunc [OF pos, of a] by simp_all
  from assms(2) have p: "p = \<lparr>pos_x = word_of_int (sint (pos_x w) div uint n),
                              pos_y = word_of_int (sint (pos_y w) div uint n)\<rparr>"
    and r: "r = \<lparr>pos_x = word_of_int (sint (pos_x w) mod uint n),
                 pos_y = word_of_int (sint (pos_y w) mod uint n)\<rparr>"
    by (simp_all add: world_to_patch_coordinates_within_eq [OF assms(1)])
  have sx: "sint (pos_x p) = sint (pos_x w) div uint n"
    and sy: "sint (pos_y p) = sint (pos_y w) div uint n"
    and rx: "sint (pos_x r) = sint (pos_x w) mod uint n"
    and ry: "sint (pos_y r) = sint (pos_y w) mod uint n"
    by (simp_all add: p r sint_floor_quot [OF assms(1)] sint_floor_rem [OF assms(1)])
  have w: "world_to_patch_coordinates w n = p"
    by (simp add: p world_to_patch_coordinates_eq [OF assms(1)])
  have range: "0 \<le> sint (pos_x r) \<and> sint (pos_x r) < uint n
       \<and> 0 \<le> sint (pos_y r) \<and> sint (pos_y r) < uint n
       \<and> sint (pos_x p) * uint n + sint (pos_x r) = sint (pos_x w)
       \<and> sint (pos_y p) * uint n + sint (pos_y r) = sint (pos_y w)"
    using pos by (simp add: sx sy rx ry)
  have adjust: "sint (pos_x p) = sint (pos_x w) sdiv uint n
             - of_bool (sint (pos_x w) < 0 \<and> sint (pos_x w) smod uint n \<noteq> 0)
       \<and> sint (pos_x r) = sint (pos_x w) smod uint n
             + uint n * of_bool (sint (pos_x w) < 0 \<and> sint (pos_x w) smod uint n \<noteq> 0)
       \<and> sint (pos_y p) = sint (pos_y w) sdiv uint n
             - of_bool (sint (pos_y w) < 0 \<and> sint (pos_y w) smod uint n \<noteq> 0)
       \<and> sint (pos_y r) = sint (pos_y w) smod uint n
             + uint n * of_bool (sint (pos_y w) < 0 \<and> sint (pos_y w) smod uint n \<noteq> 0)"
    unfolding sx sy rx ry by (intro conjI trunc)
  from range sx sy adjust w show ?thesis by blast
qed

theorem world_to_patch_coordinates_round_trip_witness:
  "(8 :: u32) \<noteq> 0
   \<and> world_to_patch_coordinates_within \<lparr>pos_x = - 1, pos_y = - 17\<rparr> 8
       = (\<lparr>pos_x = - 1, pos_y = - 3\<rparr>, \<lparr>pos_x = 7, pos_y = 7\<rparr>)
   \<and> sint (- 1 :: i64) * uint (8 :: u32) + sint (7 :: i64) = sint (- 1 :: i64)
   \<and> sint (- 3 :: i64) * uint (8 :: u32) + sint (7 :: i64) = sint (- 17 :: i64)"
proof -
  have nz: "(8 :: u32) \<noteq> 0" by simp
  have ev: "world_to_patch_coordinates_within \<lparr>pos_x = - 1, pos_y = - 17\<rparr> 8
              = (\<lparr>pos_x = - 1, pos_y = - 3\<rparr>, \<lparr>pos_x = 7, pos_y = 7\<rparr>)"
    by (simp add: world_to_patch_coordinates_within_def floored_div_with_remainder_def
        lldiv_def signed_divide_int_def signed_modulo_int_def word_sless_alt)
  note r = world_to_patch_coordinates_round_trip [OF nz ev]
  from r have x: "sint (pos_x \<lparr>pos_x = - 1, pos_y = - 3 :: i64\<rparr>) * uint (8 :: u32)
                    + sint (pos_x \<lparr>pos_x = 7, pos_y = 7 :: i64\<rparr>)
                  = sint (pos_x \<lparr>pos_x = - 1, pos_y = - 17 :: i64\<rparr>)"
    by blast
  from r have y: "sint (pos_y \<lparr>pos_x = - 1, pos_y = - 3 :: i64\<rparr>) * uint (8 :: u32)
                    + sint (pos_y \<lparr>pos_x = 7, pos_y = 7 :: i64\<rparr>)
                  = sint (pos_y \<lparr>pos_x = - 1, pos_y = - 17 :: i64\<rparr>)"
    by blast
  from x have x': "sint (- 1 :: i64) * uint (8 :: u32) + sint (7 :: i64) = sint (- 1 :: i64)"
    by (simp only: position.simps)
  from y have y': "sint (- 3 :: i64) * uint (8 :: u32) + sint (7 :: i64) = sint (- 17 :: i64)"
    by (simp only: position.simps)
  from nz ev x' y' show ?thesis by blast
qed

section \<open>The four patch positions\<close>

lemma right_left [simp]: "right (left p) = p" "left (right p) = p"
  by (simp_all add: right_def left_def)

lemma up_down [simp]: "down (up p) = p" "up (down p) = p"
  by (simp_all add: up_def down_def)

lemma right_down_left_up: "right (down (up (left p))) = p"
  by (simp add: right_def left_def up_def down_def)

lemma world_to_patch_coordinates_fst:
  "fst (world_to_patch_coordinates_within w n) = world_to_patch_coordinates w n"
  by (simp add: world_to_patch_coordinates_within_def world_to_patch_coordinates_def
      floored_div_with_remainder_def floored_div_def Let_def split: prod.splits)

lemma get_neighborhood_positions_containing:
  assumes "get_neighborhood_positions w n = (q, ps)"
  shows "q < 4 \<and> length ps = 4 \<and> ps ! q = world_to_patch_coordinates w n"
  using assms world_to_patch_coordinates_fst [of w n]
  by (auto simp: get_neighborhood_positions_def Let_def right_down_left_up
      split: prod.splits if_splits)

lemma get_neighborhood_positions_block:
  assumes "get_neighborhood_positions w n = (q, ps)"
  shows "\<exists>a. ps = [a, right a, down a, right (down a)]"
  using assms
  by (auto simp: get_neighborhood_positions_def Let_def split: prod.splits if_splits)

lemma within_less_half:
  fixes a :: i64 and n :: u32
  assumes "n \<noteq> 0"
  shows "(word_of_int (sint a mod uint n) :: i64) <s ucast (n div 2)
           \<longleftrightarrow> sint a mod uint n < uint n div 2"
  by (simp only: word_sless_alt sint_floor_rem [OF assms] sint_ucast_u32 uint_div)
     simp

lemma get_neighborhood_positions_eq:
  assumes "n \<noteq> 0"
  shows "get_neighborhood_positions w n =
     (let qx = sint (pos_x w) div uint n; qy = sint (pos_y w) div uint n;
          lx = sint (pos_x w) mod uint n < uint n div 2;
          ly = sint (pos_y w) mod uint n < uint n div 2;
          ax = (if lx then qx - 1 else qx);
          ay = (if ly then qy else qy + 1)
      in ((if lx then (if ly then 1 else 3) else (if ly then 0 else 2)),
          [\<lparr>pos_x = word_of_int ax, pos_y = word_of_int ay\<rparr>,
           \<lparr>pos_x = word_of_int (ax + 1), pos_y = word_of_int ay\<rparr>,
           \<lparr>pos_x = word_of_int ax, pos_y = word_of_int (ay - 1)\<rparr>,
           \<lparr>pos_x = word_of_int (ax + 1), pos_y = word_of_int (ay - 1)\<rparr>]))"
  unfolding get_neighborhood_positions_def world_to_patch_coordinates_within_eq [OF assms]
  by (simp add: within_less_half [OF assms] Let_def up_def down_def left_def right_def
      del: of_int_uint)

lemmas geometry_eval =
  get_neighborhood_positions_def world_to_patch_coordinates_within_def
  world_to_patch_coordinates_def floored_div_def
  floored_div_with_remainder_def lldiv_def signed_divide_int_def signed_modulo_int_def
  word_sless_alt up_def down_def left_def right_def

lemma neighborhood_positions_0_0:
  "get_neighborhood_positions \<lparr>pos_x = 0, pos_y = 0\<rparr> 8
     = (1, [\<lparr>pos_x = - 1, pos_y = 0\<rparr>, \<lparr>pos_x = 0, pos_y = 0\<rparr>,
            \<lparr>pos_x = - 1, pos_y = - 1\<rparr>, \<lparr>pos_x = 0, pos_y = - 1\<rparr>])"
  by (simp add: geometry_eval)

lemma neighborhood_positions_7_7:
  "get_neighborhood_positions \<lparr>pos_x = 7, pos_y = 7\<rparr> 8
     = (2, [\<lparr>pos_x = 0, pos_y = 1\<rparr>, \<lparr>pos_x = 1, pos_y = 1\<rparr>,
            \<lparr>pos_x = 0, pos_y = 0\<rparr>, \<lparr>pos_x = 1, pos_y = 0\<rparr>])"
  by (simp add: geometry_eval)

lemma map_n_map_ctor [simp]: "map_n (map_ctor mk n g its seed nd now) = n"
  by (simp add: map_ctor_def Let_def)

lemma patches_map_ctor [simp]: "patches (map_ctor mk n g its seed nd now) = []"
  by (simp add: map_ctor_def Let_def)

lemma get_fixed_neighborhood_positions:
  "fst (get_fixed_neighborhood d sample w m) = fst (get_neighborhood_positions w (map_n m))"
  "fst (snd (get_fixed_neighborhood d sample w m)) = snd (get_neighborhood_positions w (map_n m))"
  by (simp_all add: get_fixed_neighborhood_def Let_def split: prod.splits)

section \<open>Window coverage\<close>

lemma div_window_low:
  fixes A B N :: int
  assumes N: "0 < N" and r: "A mod N < N div 2" and d: "\<bar>B - A\<bar> \<le> N div 2"
  shows "B div N = A div N - 1 \<or> B div N = A div N"
proof -
  define e where "e = A mod N + (B - A)"
  have B: "B = e + (A div N) * N" by (simp add: e_def)
  have h: "2 * (N div 2) \<le> N" by simp
  have r0: "0 \<le> A mod N" using N by simp
  have lo: "- N \<le> e" and hi: "e < N" using r d h r0 by (auto simp: e_def abs_le_iff)
  have div: "B div N = e div N + A div N"
    using N by (simp add: B)
  show ?thesis
  proof (cases "e < 0")
    case True
    then have "0 \<le> e + N" "e + N < N" using lo by auto
    then have z: "(e + N) div N = 0" by (simp add: div_pos_pos_trivial)
    have "(e + N) div N = e div N + 1"
      using N div_mult_self1 [of N e 1] by simp
    with z have "e div N = - 1" by linarith
    then show ?thesis using div by simp
  next
    case False
    then have "e div N = 0" using hi by (simp add: div_pos_pos_trivial)
    then show ?thesis using div by simp
  qed
qed

lemma div_window_high:
  fixes A B N :: int
  assumes N: "0 < N" and r: "\<not> A mod N < N div 2" and d: "\<bar>B - A\<bar> \<le> N div 2"
  shows "B div N = A div N \<or> B div N = A div N + 1"
proof -
  define e where "e = A mod N + (B - A)"
  have B: "B = e + (A div N) * N" by (simp add: e_def)
  have h: "N div 2 < N" using N by simp
  have r1: "A mod N < N" using N by simp
  have lo: "0 \<le> e" and hi: "e < 2 * N" using r d h r1 by (auto simp: e_def abs_le_iff)
  have div: "B div N = e div N + A div N"
    using N by (simp add: B)
  show ?thesis
  proof (cases "e < N")
    case True
    then have "e div N = 0" using lo by (simp add: div_pos_pos_trivial)
    then show ?thesis using div by simp
  next
    case False
    then have "0 \<le> e - N" "e - N < N" using hi by auto
    then have z: "(e - N) div N = 0" by (simp add: div_pos_pos_trivial)
    have "(e - N) div N = e div N - 1"
      using N div_mult_self1 [of N e "- 1"] by simp
    with z have "e div N = 1" by linarith
    then show ?thesis using div by simp
  qed
qed

lemma in_tile_own_patch:
  assumes "n \<noteq> 0"
  shows "in_tile n (world_to_patch_coordinates b n) b"
proof -
  have pos: "0 < uint n" by (rule uint_u32_pos [OF assms])
  have "\<And>B :: int. B div uint n * uint n \<le> B \<and> B < (B div uint n + 1) * uint n"
  proof -
    fix B :: int
    have eq: "B div uint n * uint n + B mod uint n = B" by (rule div_mult_mod_eq)
    have m: "0 \<le> B mod uint n" "B mod uint n < uint n" using pos by simp_all
    have d: "(B div uint n + 1) * uint n = B div uint n * uint n + uint n"
      by (simp add: distrib_right)
    show "B div uint n * uint n \<le> B \<and> B < (B div uint n + 1) * uint n"
      unfolding d using eq m by linarith
  qed
  then show ?thesis
    by (simp add: in_tile_def world_to_patch_coordinates_eq [OF assms] sint_floor_quot [OF assms])
qed

text \<open>
  C5. For every world position \<open>w\<close> and patch size \<open>n \<ge> 1\<close>, the four patch positions
  computed for \<open>get_fixed_neighborhood(w)\<close> are a 2x2 block \<open>a\<close>, \<open>a.right()\<close>,
  \<open>a.down()\<close>, \<open>a.down().right()\<close>, and every lattice point \<open>b\<close> of the box around
  \<open>w\<close> with half-width \<open>n / 2\<close> in both directions (which holds the \<open>n x n\<close> box
  centered at \<open>w\<close>) lies in the tile of one of the four, wherever \<open>w\<close> sits in its
  patch.
\<close>

theorem window_coverage:
  assumes n: "n \<noteq> 0"
    and ps: "get_neighborhood_positions w n = (q, ps)"
    and dx: "\<bar>sint (pos_x b) - sint (pos_x w)\<bar> \<le> uint n div 2"
    and dy: "\<bar>sint (pos_y b) - sint (pos_y w)\<bar> \<le> uint n div 2"
  shows "(\<exists>a. ps = [a, right a, down a, right (down a)])
       \<and> world_to_patch_coordinates b n \<in> set ps
       \<and> in_tile n (world_to_patch_coordinates b n) b"
proof -
  have pos: "0 < uint n" by (rule uint_u32_pos [OF n])
  have block: "\<exists>a. ps = [a, right a, down a, right (down a)]"
    by (rule get_neighborhood_positions_block [OF ps])
  have x: "sint (pos_x w) mod uint n < uint n div 2 \<Longrightarrow>
             sint (pos_x b) div uint n = sint (pos_x w) div uint n - 1
           \<or> sint (pos_x b) div uint n = sint (pos_x w) div uint n"
    by (rule div_window_low [OF pos _ dx])
  have x': "\<not> sint (pos_x w) mod uint n < uint n div 2 \<Longrightarrow>
             sint (pos_x b) div uint n = sint (pos_x w) div uint n
           \<or> sint (pos_x b) div uint n = sint (pos_x w) div uint n + 1"
    by (rule div_window_high [OF pos _ dx])
  have y: "sint (pos_y w) mod uint n < uint n div 2 \<Longrightarrow>
             sint (pos_y b) div uint n = sint (pos_y w) div uint n - 1
           \<or> sint (pos_y b) div uint n = sint (pos_y w) div uint n"
    by (rule div_window_low [OF pos _ dy])
  have y': "\<not> sint (pos_y w) mod uint n < uint n div 2 \<Longrightarrow>
             sint (pos_y b) div uint n = sint (pos_y w) div uint n
           \<or> sint (pos_y b) div uint n = sint (pos_y w) div uint n + 1"
    by (rule div_window_high [OF pos _ dy])
  have mem: "world_to_patch_coordinates b n \<in> set ps"
  proof (cases "sint (pos_x w) mod uint n < uint n div 2";
         cases "sint (pos_y w) mod uint n < uint n div 2")
    assume c: "sint (pos_x w) mod uint n < uint n div 2"
      "sint (pos_y w) mod uint n < uint n div 2"
    from x [OF c(1)] y [OF c(2)] show ?thesis
      using ps c
      by (auto simp: get_neighborhood_positions_eq [OF n]
          world_to_patch_coordinates_eq [OF n] Let_def)
  next
    assume c: "sint (pos_x w) mod uint n < uint n div 2"
      "\<not> sint (pos_y w) mod uint n < uint n div 2"
    from x [OF c(1)] y' [OF c(2)] show ?thesis
      using ps c
      by (auto simp: get_neighborhood_positions_eq [OF n]
          world_to_patch_coordinates_eq [OF n] Let_def)
  next
    assume c: "\<not> sint (pos_x w) mod uint n < uint n div 2"
      "sint (pos_y w) mod uint n < uint n div 2"
    from x' [OF c(1)] y [OF c(2)] show ?thesis
      using ps c
      by (auto simp: get_neighborhood_positions_eq [OF n]
          world_to_patch_coordinates_eq [OF n] Let_def)
  next
    assume c: "\<not> sint (pos_x w) mod uint n < uint n div 2"
      "\<not> sint (pos_y w) mod uint n < uint n div 2"
    from x' [OF c(1)] y' [OF c(2)] show ?thesis
      using ps c
      by (auto simp: get_neighborhood_positions_eq [OF n]
          world_to_patch_coordinates_eq [OF n] Let_def)
  qed
  from block mem in_tile_own_patch [OF n] show ?thesis by blast
qed

theorem window_coverage_witness:
  "(8 :: u32) \<noteq> 0
   \<and> get_neighborhood_positions \<lparr>pos_x = 0, pos_y = 0\<rparr> 8
       = (1, [\<lparr>pos_x = - 1, pos_y = 0\<rparr>, \<lparr>pos_x = 0, pos_y = 0\<rparr>,
              \<lparr>pos_x = - 1, pos_y = - 1\<rparr>, \<lparr>pos_x = 0, pos_y = - 1\<rparr>])
   \<and> \<bar>sint (4 :: i64) - sint (0 :: i64)\<bar> \<le> uint (8 :: u32) div 2
   \<and> \<bar>sint (- 4 :: i64) - sint (0 :: i64)\<bar> \<le> uint (8 :: u32) div 2
   \<and> world_to_patch_coordinates \<lparr>pos_x = 4, pos_y = - 4\<rparr> 8
       \<in> set [\<lparr>pos_x = - 1, pos_y = 0\<rparr>, \<lparr>pos_x = 0, pos_y = 0\<rparr>,
              \<lparr>pos_x = - 1, pos_y = - 1\<rparr>, \<lparr>pos_x = 0, pos_y = - 1\<rparr>]
   \<and> in_tile 8 \<lparr>pos_x = 0, pos_y = - 1\<rparr> \<lparr>pos_x = 4, pos_y = - 4\<rparr>"
proof -
  have nz: "(8 :: u32) \<noteq> 0" by simp
  have dx: "\<bar>sint (pos_x \<lparr>pos_x = 4, pos_y = - 4 :: i64\<rparr>)
              - sint (pos_x \<lparr>pos_x = 0, pos_y = 0 :: i64\<rparr>)\<bar> \<le> uint (8 :: u32) div 2"
    by simp
  have dy: "\<bar>sint (pos_y \<lparr>pos_x = 4, pos_y = - 4 :: i64\<rparr>)
              - sint (pos_y \<lparr>pos_x = 0, pos_y = 0 :: i64\<rparr>)\<bar> \<le> uint (8 :: u32) div 2"
    by simp
  have wp: "world_to_patch_coordinates \<lparr>pos_x = 4, pos_y = - 4\<rparr> 8
              = \<lparr>pos_x = 0, pos_y = - 1\<rparr>"
    by (simp add: geometry_eval)
  note r = window_coverage [OF nz neighborhood_positions_0_0 dx dy]
  have mem: "world_to_patch_coordinates \<lparr>pos_x = 4, pos_y = - 4\<rparr> 8
       \<in> set [\<lparr>pos_x = - 1, pos_y = 0\<rparr>, \<lparr>pos_x = 0, pos_y = 0\<rparr>,
              \<lparr>pos_x = - 1, pos_y = - 1\<rparr>, \<lparr>pos_x = 0, pos_y = - 1\<rparr>]"
    by (rule conjunct1 [OF conjunct2 [OF r]])
  have "in_tile 8 (world_to_patch_coordinates \<lparr>pos_x = 4, pos_y = - 4\<rparr> 8)
          \<lparr>pos_x = 4, pos_y = - 4\<rparr>"
    by (rule conjunct2 [OF conjunct2 [OF r]])
  then have tile: "in_tile 8 \<lparr>pos_x = 0, pos_y = - 1\<rparr> \<lparr>pos_x = 4, pos_y = - 4\<rparr>"
    by (simp only: wp)
  show ?thesis
    by (intro conjI nz neighborhood_positions_0_0 mem tile) simp_all
qed

section \<open>Scenario S2\<close>

text \<open>
  C6, as the code has it. With \<open>n = 8\<close>, on a fresh map, \<open>get_fixed_neighborhood((7, 7))\<close>
  returns query index 2 and the patch positions \<open>(0, 1)\<close>, \<open>(1, 1)\<close>, \<open>(0, 0)\<close>,
  \<open>(1, 0)\<close>: the position \<open>(7, 7)\<close> has the coordinates \<open>(7, 7)\<close> within patch
  \<open>(0, 0)\<close>, in its top-right quadrant, so that the anchor is \<open>(0, 0).up() = (0, 1)\<close>
  and the patch \<open>(0, 0)\<close> is third in the row-major order.
\<close>

theorem s2_neighborhood:
  "fst (get_fixed_neighborhood d sample \<lparr>pos_x = 7, pos_y = 7\<rparr>
          (map_ctor mk 8 g its seed nd now)) = 2
   \<and> fst (snd (get_fixed_neighborhood d sample \<lparr>pos_x = 7, pos_y = 7\<rparr>
                 (map_ctor mk 8 g its seed nd now)))
       = [\<lparr>pos_x = 0, pos_y = 1\<rparr>, \<lparr>pos_x = 1, pos_y = 1\<rparr>,
          \<lparr>pos_x = 0, pos_y = 0\<rparr>, \<lparr>pos_x = 1, pos_y = 0\<rparr>]
   \<and> world_to_patch_coordinates_within \<lparr>pos_x = 7, pos_y = 7\<rparr> 8
       = (\<lparr>pos_x = 0, pos_y = 0\<rparr>, \<lparr>pos_x = 7, pos_y = 7\<rparr>)"
  by (simp add: get_fixed_neighborhood_positions neighborhood_positions_7_7)
     (simp add: geometry_eval)

text \<open>
  C6, as it is stated, fails: the query index is not 0 and the positions are not
  \<open>(0, 0)\<close>, \<open>(1, 0)\<close>, \<open>(0, 1)\<close>, \<open>(1, 1)\<close>.
\<close>

theorem s2_counterexample:
  "\<not> (fst (get_fixed_neighborhood () idle_sampler \<lparr>pos_x = 7, pos_y = 7\<rparr> scenario_map) = 0
      \<and> fst (snd (get_fixed_neighborhood () idle_sampler \<lparr>pos_x = 7, pos_y = 7\<rparr> scenario_map))
          = [\<lparr>pos_x = 0, pos_y = 0\<rparr>, \<lparr>pos_x = 1, pos_y = 0\<rparr>,
             \<lparr>pos_x = 0, pos_y = 1\<rparr>, \<lparr>pos_x = 1, pos_y = 1\<rparr>])"
  by (simp add: get_fixed_neighborhood_positions scenario_map_def neighborhood_positions_7_7)

section \<open>The index that the read-only query returns\<close>

lemma get_neighborhood_fold:
  assumes "q < 4"
    and "fold (get_neighborhood_step m [p0, p1, p2, p3]) [0, 1, 2, 3]
           ([None, None, None, None], q, 0) = (nb, pidx, cnt)"
  shows "cnt = length (filter (\<lambda>p. get_patch_if_exists m p \<noteq> None) [p0, p1, p2, p3])
       \<and> (get_patch_if_exists m ([p0, p1, p2, p3] ! q) = None \<longrightarrow> pidx = q)
       \<and> (get_patch_if_exists m ([p0, p1, p2, p3] ! q) \<noteq> None \<longrightarrow>
             pidx = length (filter (\<lambda>p. get_patch_if_exists m p \<noteq> None)
                             (take q [p0, p1, p2, p3]))
           \<and> pidx < cnt
           \<and> nb ! pidx = get_patch_if_exists m ([p0, p1, p2, p3] ! q))"
proof -
  consider "q = 0" | "q = 1" | "q = 2" | "q = 3" using assms(1) by linarith
  then show ?thesis
    using assms(2)
    by cases
      (cases "get_patch_if_exists m p0"; cases "get_patch_if_exists m p1";
       cases "get_patch_if_exists m p2"; cases "get_patch_if_exists m p3";
       auto simp: get_neighborhood_step_def Let_def)+
qed

lemma get_neighborhood_fold_returned:
  assumes "fold (get_neighborhood_step m [p0, p1, p2, p3]) [0, 1, 2, 3]
           ([None, None, None, None], q, 0) = (nb, pidx, cnt)"
  shows "take cnt nb = map (get_patch_if_exists m)
           (filter (\<lambda>p. get_patch_if_exists m p \<noteq> None) [p0, p1, p2, p3])"
  using assms
  by (cases "get_patch_if_exists m p0"; cases "get_patch_if_exists m p1";
      cases "get_patch_if_exists m p2"; cases "get_patch_if_exists m p3")
     (auto simp: get_neighborhood_step_def Let_def split: if_splits)

lemma gap_map_neighborhood:
  "get_neighborhood \<lparr>pos_x = 0, pos_y = 0\<rparr> gap_map
     = (2, [Some \<lparr>items = [], fixed = False, data = 1\<rparr>,
            Some \<lparr>items = [], fixed = False, data = 2\<rparr>, None, None],
        [\<lparr>pos_x = - 1, pos_y = 0\<rparr>, \<lparr>pos_x = 0, pos_y = 0\<rparr>,
         \<lparr>pos_x = - 1, pos_y = - 1\<rparr>, \<lparr>pos_x = 0, pos_y = - 1\<rparr>], 1)"
  by (simp add: get_neighborhood_def gap_map_def neighborhood_positions_0_0
      get_neighborhood_step_def get_patch_if_exists_def)

lemma gap_map_absent:
  "get_patch_if_exists gap_map
     (world_to_patch_coordinates \<lparr>pos_x = 0, pos_y = 0\<rparr> (map_n gap_map)) = None"
  by (simp add: gap_map_def get_patch_if_exists_def geometry_eval)

text \<open>
  C10, as the code has it. The patches that \<open>get_neighborhood(w)\<close> returns are the
  existing ones among the four positions, in their order, and the returned count is
  their number. When the patch that contains the world position \<open>w\<close> does not exist,
  \<open>patch_index\<close> is left at the quadrant index that \<open>get_neighborhood_positions\<close>
  computed, which may be greater than or equal to the returned count; when it is below
  the count, the entry of \<open>neighborhood\<close> at \<open>patch_index\<close> is a returned patch, the
  patch of another of the four positions, never the patch that contains \<open>w\<close>. When
  the patch that contains \<open>w\<close> exists, \<open>patch_index\<close> is the number of existing
  patches before it among the four positions, it is smaller than the returned count,
  and the entry of \<open>neighborhood\<close> at \<open>patch_index\<close> is that patch.
\<close>

theorem get_neighborhood_patch_index:
  assumes "get_neighborhood w m = (count, neighborhood, patch_positions, patch_index)"
  shows "count = length (filter (\<lambda>p. get_patch_if_exists m p \<noteq> None) patch_positions)
       \<and> take count neighborhood
           = map (get_patch_if_exists m)
               (filter (\<lambda>p. get_patch_if_exists m p \<noteq> None) patch_positions)
       \<and> (get_patch_if_exists m (world_to_patch_coordinates w (map_n m)) = None \<longrightarrow>
             patch_index = fst (get_neighborhood_positions w (map_n m))
           \<and> (patch_index < count \<longrightarrow>
                 neighborhood ! patch_index \<noteq> None
               \<and> neighborhood ! patch_index
                   = get_patch_if_exists m
                       (filter (\<lambda>p. get_patch_if_exists m p \<noteq> None) patch_positions
                          ! patch_index)
               \<and> filter (\<lambda>p. get_patch_if_exists m p \<noteq> None) patch_positions ! patch_index
                   \<noteq> world_to_patch_coordinates w (map_n m)))
       \<and> (get_patch_if_exists m (world_to_patch_coordinates w (map_n m)) \<noteq> None \<longrightarrow>
             patch_index
               = length (filter (\<lambda>p. get_patch_if_exists m p \<noteq> None)
                          (take (fst (get_neighborhood_positions w (map_n m))) patch_positions))
           \<and> patch_index < count
           \<and> neighborhood ! patch_index
               = get_patch_if_exists m (world_to_patch_coordinates w (map_n m)))"
proof -
  obtain q ps where np: "get_neighborhood_positions w (map_n m) = (q, ps)"
    by (cases "get_neighborhood_positions w (map_n m)")
  from get_neighborhood_positions_containing [OF np]
  have q: "q < 4" and c: "ps ! q = world_to_patch_coordinates w (map_n m)" by simp_all
  from get_neighborhood_positions_block [OF np]
  obtain a where ps: "ps = [a, right a, down a, right (down a)]" ..
  from assms have pp: "patch_positions = ps"
    and f: "fold (get_neighborhood_step m ps) [0, 1, 2, 3] ([None, None, None, None], q, 0)
              = (neighborhood, patch_index, count)"
    by (simp_all add: get_neighborhood_def np Let_def split: prod.splits)
  define existing where
    "existing = filter (\<lambda>p. get_patch_if_exists m p \<noteq> None) patch_positions"
  note index = get_neighborhood_fold [OF q f [unfolded ps], folded ps, folded pp]
  have cnt: "count = length existing"
    using index unfolding existing_def by (rule conjunct1)
  have returned: "take count neighborhood = map (get_patch_if_exists m) existing"
    unfolding existing_def pp ps
    by (rule get_neighborhood_fold_returned [OF f [unfolded ps]])
  have stale: "neighborhood ! patch_index \<noteq> None
      \<and> neighborhood ! patch_index = get_patch_if_exists m (existing ! patch_index)
      \<and> existing ! patch_index \<noteq> world_to_patch_coordinates w (map_n m)"
    if absent: "get_patch_if_exists m (world_to_patch_coordinates w (map_n m)) = None"
      and below: "patch_index < count"
  proof -
    from below cnt have "existing ! patch_index \<in> set existing" by simp
    then have e: "get_patch_if_exists m (existing ! patch_index) \<noteq> None"
      by (simp add: existing_def)
    have "neighborhood ! patch_index = take count neighborhood ! patch_index"
      using below by simp
    also have "\<dots> = get_patch_if_exists m (existing ! patch_index)"
      unfolding returned using below cnt by simp
    finally have n: "neighborhood ! patch_index = get_patch_if_exists m (existing ! patch_index)" .
    from e absent have "existing ! patch_index \<noteq> world_to_patch_coordinates w (map_n m)"
      by auto
    with e n show ?thesis by simp
  qed
  from index have raw: "get_patch_if_exists m (world_to_patch_coordinates w (map_n m)) = None
      \<longrightarrow> patch_index = fst (get_neighborhood_positions w (map_n m))"
    unfolding pp np fst_conv c [symmetric] by blast
  from index have compacted:
    "get_patch_if_exists m (world_to_patch_coordinates w (map_n m)) \<noteq> None \<longrightarrow>
       patch_index
         = length (filter (\<lambda>p. get_patch_if_exists m p \<noteq> None)
                    (take (fst (get_neighborhood_positions w (map_n m))) patch_positions))
     \<and> patch_index < count
     \<and> neighborhood ! patch_index
         = get_patch_if_exists m (world_to_patch_coordinates w (map_n m))"
    unfolding pp np fst_conv c [symmetric] by blast
  from cnt returned raw stale compacted show ?thesis
    unfolding existing_def by blast
qed

theorem get_neighborhood_patch_index_witness:
  "get_neighborhood \<lparr>pos_x = 0, pos_y = 0\<rparr> scenario_map
     = (0, [None, None, None, None],
        [\<lparr>pos_x = - 1, pos_y = 0\<rparr>, \<lparr>pos_x = 0, pos_y = 0\<rparr>,
         \<lparr>pos_x = - 1, pos_y = - 1\<rparr>, \<lparr>pos_x = 0, pos_y = - 1\<rparr>], 1)
   \<and> get_patch_if_exists scenario_map
        (world_to_patch_coordinates \<lparr>pos_x = 0, pos_y = 0\<rparr> (map_n scenario_map)) = None
   \<and> fst (get_neighborhood_positions \<lparr>pos_x = 0, pos_y = 0\<rparr> (map_n scenario_map)) = 1
   \<and> get_neighborhood \<lparr>pos_x = 0, pos_y = 0\<rparr> gap_map
     = (2, [Some \<lparr>items = [], fixed = False, data = 1\<rparr>,
            Some \<lparr>items = [], fixed = False, data = 2\<rparr>, None, None],
        [\<lparr>pos_x = - 1, pos_y = 0\<rparr>, \<lparr>pos_x = 0, pos_y = 0\<rparr>,
         \<lparr>pos_x = - 1, pos_y = - 1\<rparr>, \<lparr>pos_x = 0, pos_y = - 1\<rparr>], 1)
   \<and> get_patch_if_exists gap_map
        (world_to_patch_coordinates \<lparr>pos_x = 0, pos_y = 0\<rparr> (map_n gap_map)) = None
   \<and> (1 :: nat) < 2
   \<and> filter (\<lambda>p. get_patch_if_exists gap_map p \<noteq> None)
         [\<lparr>pos_x = - 1, pos_y = 0\<rparr>, \<lparr>pos_x = 0, pos_y = 0\<rparr>,
          \<lparr>pos_x = - 1, pos_y = - 1\<rparr>, \<lparr>pos_x = 0, pos_y = - 1\<rparr>] ! 1
       \<noteq> world_to_patch_coordinates \<lparr>pos_x = 0, pos_y = 0\<rparr> (map_n gap_map)
   \<and> get_neighborhood \<lparr>pos_x = 0, pos_y = 0\<rparr> two_by_two_map
     = (1, [Some (init_patch ()), None, None, None],
        [\<lparr>pos_x = - 1, pos_y = 0\<rparr>, \<lparr>pos_x = 0, pos_y = 0\<rparr>,
         \<lparr>pos_x = - 1, pos_y = - 1\<rparr>, \<lparr>pos_x = 0, pos_y = - 1\<rparr>], 0)
   \<and> get_patch_if_exists two_by_two_map
        (world_to_patch_coordinates \<lparr>pos_x = 0, pos_y = 0\<rparr> (map_n two_by_two_map))
       = Some (init_patch ())
   \<and> fst (get_neighborhood_positions \<lparr>pos_x = 0, pos_y = 0\<rparr> (map_n two_by_two_map)) = 1"
proof -
  have ev: "get_neighborhood \<lparr>pos_x = 0, pos_y = 0\<rparr> scenario_map
     = (0, [None, None, None, None],
        [\<lparr>pos_x = - 1, pos_y = 0\<rparr>, \<lparr>pos_x = 0, pos_y = 0\<rparr>,
         \<lparr>pos_x = - 1, pos_y = - 1\<rparr>, \<lparr>pos_x = 0, pos_y = - 1\<rparr>], 1)"
    by (simp add: get_neighborhood_def scenario_map_def neighborhood_positions_0_0
        get_neighborhood_step_def get_patch_if_exists_def)
  have none: "get_patch_if_exists scenario_map
        (world_to_patch_coordinates \<lparr>pos_x = 0, pos_y = 0\<rparr> (map_n scenario_map)) = None"
    by (simp add: scenario_map_def get_patch_if_exists_def)
  from get_neighborhood_patch_index [OF ev] none
  have raw: "fst (get_neighborhood_positions \<lparr>pos_x = 0, pos_y = 0\<rparr> (map_n scenario_map)) = 1"
    by simp
  have below: "(1 :: nat) < 2" by simp
  from get_neighborhood_patch_index [OF gap_map_neighborhood] gap_map_absent below
  have other: "filter (\<lambda>p. get_patch_if_exists gap_map p \<noteq> None)
         [\<lparr>pos_x = - 1, pos_y = 0\<rparr>, \<lparr>pos_x = 0, pos_y = 0\<rparr>,
          \<lparr>pos_x = - 1, pos_y = - 1\<rparr>, \<lparr>pos_x = 0, pos_y = - 1\<rparr>] ! 1
       \<noteq> world_to_patch_coordinates \<lparr>pos_x = 0, pos_y = 0\<rparr> (map_n gap_map)"
    by blast
  have m: "two_by_two_map
     = \<lparr>patches = [(\<lparr>pos_x = 0, pos_y = 0\<rparr>, init_patch ())],
        map_n = 2, gibbs_iterations = 10, rng = 1, cache = ()\<rparr>"
    by (simp add: two_by_two_map_def map_ctor_def Let_def get_or_make_patch_def
        minstd_seed_def no_cache_def)
  have np: "get_neighborhood_positions \<lparr>pos_x = 0, pos_y = 0\<rparr> 2
     = (1, [\<lparr>pos_x = - 1, pos_y = 0\<rparr>, \<lparr>pos_x = 0, pos_y = 0\<rparr>,
            \<lparr>pos_x = - 1, pos_y = - 1\<rparr>, \<lparr>pos_x = 0, pos_y = - 1\<rparr>])"
    by (simp add: geometry_eval)
  have ev2: "get_neighborhood \<lparr>pos_x = 0, pos_y = 0\<rparr> two_by_two_map
     = (1, [Some (init_patch ()), None, None, None],
        [\<lparr>pos_x = - 1, pos_y = 0\<rparr>, \<lparr>pos_x = 0, pos_y = 0\<rparr>,
         \<lparr>pos_x = - 1, pos_y = - 1\<rparr>, \<lparr>pos_x = 0, pos_y = - 1\<rparr>], 0)"
    by (simp add: get_neighborhood_def m np get_neighborhood_step_def get_patch_if_exists_def)
  have some: "get_patch_if_exists two_by_two_map
        (world_to_patch_coordinates \<lparr>pos_x = 0, pos_y = 0\<rparr> (map_n two_by_two_map))
       = Some (init_patch ())"
    by (simp add: m get_patch_if_exists_def geometry_eval)
  have raw2: "fst (get_neighborhood_positions \<lparr>pos_x = 0, pos_y = 0\<rparr> (map_n two_by_two_map)) = 1"
    by (simp add: m np)
  from some have "get_patch_if_exists two_by_two_map
        (world_to_patch_coordinates \<lparr>pos_x = 0, pos_y = 0\<rparr> (map_n two_by_two_map)) \<noteq> None"
    by simp
  with get_neighborhood_patch_index [OF ev2]
  have "(0 :: nat) < 1" by blast
  from ev none raw gap_map_neighborhood gap_map_absent below other ev2 some raw2
  show ?thesis by blast
qed

text \<open>
  C10, as it is stated, fails: on the map that holds \<open>(-1, 0)\<close> and \<open>(0, -1)\<close> but
  not \<open>(0, 0)\<close>, the query at \<open>(0, 0)\<close> returns two patches and leaves
  \<open>patch_index\<close> at 1, which is below the count and refers to the returned patch
  \<open>(0, -1)\<close>.
\<close>

theorem stale_patch_index_counterexample:
  "get_patch_if_exists gap_map
     (world_to_patch_coordinates \<lparr>pos_x = 0, pos_y = 0\<rparr> (map_n gap_map)) = None
   \<and> fst (get_neighborhood \<lparr>pos_x = 0, pos_y = 0\<rparr> gap_map) = 2
   \<and> snd (snd (snd (get_neighborhood \<lparr>pos_x = 0, pos_y = 0\<rparr> gap_map))) = 1
   \<and> \<not> fst (get_neighborhood \<lparr>pos_x = 0, pos_y = 0\<rparr> gap_map)
         \<le> snd (snd (snd (get_neighborhood \<lparr>pos_x = 0, pos_y = 0\<rparr> gap_map)))
   \<and> fst (snd (get_neighborhood \<lparr>pos_x = 0, pos_y = 0\<rparr> gap_map))
         ! snd (snd (snd (get_neighborhood \<lparr>pos_x = 0, pos_y = 0\<rparr> gap_map)))
       = get_patch_if_exists gap_map \<lparr>pos_x = 0, pos_y = - 1\<rparr>
   \<and> get_patch_if_exists gap_map \<lparr>pos_x = 0, pos_y = - 1\<rparr>
       = Some \<lparr>items = [], fixed = False, data = 2\<rparr>"
  by (simp add: gap_map_absent gap_map_neighborhood)
     (simp add: gap_map_def get_patch_if_exists_def)

section \<open>Sorting and deduplication of positions\<close>

lemma position_less_alt:
  "position_less a b \<longleftrightarrow>
     sint (pos_x a) < sint (pos_x b)
   \<or> (sint (pos_x a) = sint (pos_x b) \<and> sint (pos_y a) < sint (pos_y b))"
  by (auto simp: position_less_def word_sless_alt)

lemma position_eq_iff_sint:
  "a = b \<longleftrightarrow> sint (pos_x a) = sint (pos_x b) \<and> sint (pos_y a) = sint (pos_y b)"
  for a b :: position
  by (cases a, cases b) (auto intro: signed_word_eqI)

lemma position_less_trans:
  "position_less a b \<Longrightarrow> position_less b c \<Longrightarrow> position_less a c"
  by (auto simp: position_less_alt)

lemma position_not_less_antisym:
  "\<not> position_less b a \<Longrightarrow> \<not> position_less a b \<Longrightarrow> a = b"
  by (auto simp: position_less_alt position_eq_iff_sint)

lemma position_less_asym: "position_less a b \<Longrightarrow> \<not> position_less b a"
  by (auto simp: position_less_alt)

lemma set_insert_sorted [simp]: "set (insert_sorted x ys) = insert x (set ys)"
  by (induction ys) auto

lemma sorted_insert_sorted:
  "position_sorted ys \<Longrightarrow> position_sorted (insert_sorted x ys)"
proof (induction ys)
  case Nil
  then show ?case by simp
next
  case (Cons y ys)
  show ?case
  proof (cases "position_less x y")
    case True
    then have "\<not> position_less z x" if "z \<in> set ys" for z
      using Cons.prems that position_less_trans [of z x y] by auto
    with True Cons.prems show ?thesis by (auto dest: position_less_asym)
  next
    case False
    with Cons show ?thesis by auto
  qed
qed

lemma sorted_foldl_insert_sorted:
  "position_sorted acc \<Longrightarrow>
   position_sorted (foldl (\<lambda>sorted_prefix x. insert_sorted x sorted_prefix) acc xs)"
  by (induction xs arbitrary: acc) (simp_all add: sorted_insert_sorted)

lemma set_foldl_insert_sorted:
  "set (foldl (\<lambda>sorted_prefix x. insert_sorted x sorted_prefix) acc xs) = set acc \<union> set xs"
  by (induction xs arbitrary: acc) auto

lemma sorted_insertion_sort: "position_sorted (insertion_sort xs)"
  by (simp add: insertion_sort_def sorted_foldl_insert_sorted)

lemma set_insertion_sort [simp]: "set (insertion_sort xs) = set xs"
  by (simp add: insertion_sort_def set_foldl_insert_sorted)

lemma set_unique [simp]: "set (unique xs) = set xs"
  by (induction xs rule: unique.induct) auto

lemma distinct_unique: "position_sorted xs \<Longrightarrow> distinct (unique xs)"
proof (induction xs rule: unique.induct)
  case (3 x y xs)
  show ?case
  proof (cases "x = y")
    case True
    with 3 show ?thesis by auto
  next
    case False
    have "x \<noteq> z" if "z \<in> set xs" for z
    proof
      assume "x = z"
      with "3.prems" that have "\<not> position_less y x" "\<not> position_less x y" by auto
      then have "x = y" by (rule position_not_less_antisym)
      with False show False ..
    qed
    with False 3 show ?thesis by auto
  qed
qed simp_all

lemma distinct_collect_positions:
  "distinct acc \<Longrightarrow> distinct (collect_positions m ps acc)"
  by (induction ps arbitrary: acc) (simp_all add: distinct_unique sorted_insertion_sort)

lemma distinct_array_remove:
  assumes "distinct xs" "i < length xs"
  shows "distinct (array_remove i xs)"
proof -
  from assms(2) have ne: "xs \<noteq> []" by auto
  have "distinct (butlast xs @ [last xs])" using assms(1) ne by simp
  then have d: "distinct (butlast xs)" and l: "last xs \<notin> set (butlast xs)" by simp_all
  show ?thesis
    using d l by (simp add: array_remove_def distinct_list_update)
qed

lemma take_array_remove:
  "i < length xs \<Longrightarrow> take i (array_remove i xs) = take i xs"
  by (auto simp: array_remove_def butlast_conv_take)

section \<open>The second loop of the fixing protocol\<close>

lemma map_of_get_or_make_patch:
  "map_of (patches (get_or_make_patch d p m)) q =
     (if q = p \<and> map_of (patches m) p = None then Some (init_patch d)
      else map_of (patches m) q)"
  by (auto simp: get_or_make_patch_def split: option.splits)

lemma get_or_make_patch_keeps:
  "map_of (patches m) q = Some pt \<Longrightarrow> map_of (patches (get_or_make_patch d p m)) q = Some pt"
  by (auto simp: map_of_get_or_make_patch)

lemma get_or_make_patch_exists:
  "map_of (patches (get_or_make_patch d p m)) p \<noteq> None"
  by (auto simp: map_of_get_or_make_patch)

lemma prune_fixed_distinct:
  "distinct ps \<Longrightarrow> distinct (fst (prune_fixed d i ps m))"
proof (induction d i ps m rule: prune_fixed.induct)
  case (1 d i ps m)
  show ?case
  proof (cases "i < length ps")
    case False
    with "1.prems" show ?thesis by (simp add: prune_fixed.simps [of d i ps m])
  next
    case True
    with 1 show ?thesis
      by (simp add: prune_fixed.simps [of d i ps m] Let_def distinct_array_remove)
  qed
qed

lemma prune_fixed_keeps:
  "map_of (patches m) q = Some pt \<Longrightarrow> map_of (patches (snd (prune_fixed d i ps m))) q = Some pt"
proof (induction d i ps m rule: prune_fixed.induct)
  case (1 d i ps m)
  show ?case
  proof (cases "i < length ps")
    case False
    with 1 show ?thesis by (simp add: prune_fixed.simps [of d i ps m])
  next
    case True
    with 1 show ?thesis
      by (simp add: prune_fixed.simps [of d i ps m] Let_def get_or_make_patch_keeps)
  qed
qed

lemma prune_fixed_take:
  "take i (fst (prune_fixed d i ps m)) = take i ps"
proof (induction d i ps m rule: prune_fixed.induct)
  case (1 d i ps m)
  show ?case
  proof (cases "i < length ps")
    case False
    then show ?thesis by (simp add: prune_fixed.simps [of d i ps m])
  next
    case True
    define m' where "m' = get_or_make_patch d (ps ! i) m"
    show ?thesis
    proof (cases "patch_is_fixed m' (ps ! i)")
      case fixed: True
      have eq: "prune_fixed d i ps m = prune_fixed d i (array_remove i ps) m'"
        using True fixed by (simp add: prune_fixed.simps [of d i ps m] m'_def Let_def)
      show ?thesis
        using "1.IH"(1) [OF True m'_def fixed] take_array_remove [OF True]
        unfolding eq by simp
    next
      case unfixed: False
      have eq: "prune_fixed d i ps m = prune_fixed d (i + 1) ps m'"
        using True unfixed by (simp add: prune_fixed.simps [of d i ps m] m'_def Let_def)
      have "take (i + 1) (fst (prune_fixed d (i + 1) ps m')) = take (i + 1) ps"
        by (rule "1.IH"(2) [OF True m'_def unfixed])
      then have "take i (take (i + 1) (fst (prune_fixed d (i + 1) ps m'))) = take i (take (i + 1) ps)"
        by simp
      then show ?thesis unfolding eq by (simp add: min_def)
    qed
  qed
qed

lemma prune_fixed_unfixed:
  "q \<in> set (drop i (fst (prune_fixed d i ps m)))
     \<Longrightarrow> \<not> patch_is_fixed (snd (prune_fixed d i ps m)) q"
proof (induction d i ps m arbitrary: q rule: prune_fixed.induct)
  case (1 d i ps m)
  show ?case
  proof (cases "i < length ps")
    case False
    with "1.prems" show ?thesis by (simp add: prune_fixed.simps [of d i ps m])
  next
    case True
    define m' where "m' = get_or_make_patch d (ps ! i) m"
    show ?thesis
    proof (cases "patch_is_fixed m' (ps ! i)")
      case fixed: True
      have eq: "prune_fixed d i ps m = prune_fixed d i (array_remove i ps) m'"
        using True fixed by (simp add: prune_fixed.simps [of d i ps m] m'_def Let_def)
      show ?thesis
        using "1.IH"(1) [OF True m'_def fixed] "1.prems"
        unfolding eq by simp
    next
      case unfixed: False
      have eq: "prune_fixed d i ps m = prune_fixed d (i + 1) ps m'"
        using True unfixed by (simp add: prune_fixed.simps [of d i ps m] m'_def Let_def)
      from "1.prems" have q: "q \<in> set (drop i (fst (prune_fixed d (i + 1) ps m')))"
        unfolding eq .
      have tk: "take (i + 1) (fst (prune_fixed d (i + 1) ps m')) = take (i + 1) ps"
        by (rule prune_fixed_take)
      have len: "i < length (fst (prune_fixed d (i + 1) ps m'))"
        using tk True by (metis length_take min_less_iff_conj less_add_one)
      have nth: "fst (prune_fixed d (i + 1) ps m') ! i = ps ! i"
        using tk by (metis less_add_one nth_take)
      from q len have "q = ps ! i \<or> q \<in> set (drop (i + 1) (fst (prune_fixed d (i + 1) ps m')))"
        by (metis Cons_nth_drop_Suc nth set_ConsD Suc_eq_plus1)
      then show ?thesis
      proof
        assume "q \<in> set (drop (i + 1) (fst (prune_fixed d (i + 1) ps m')))"
        then show ?thesis
          using "1.IH"(2) [OF True m'_def unfixed] unfolding eq by simp
      next
        assume qi: "q = ps ! i"
        obtain pt where pt: "map_of (patches m') (ps ! i) = Some pt"
          using get_or_make_patch_exists [of d "ps ! i" m] unfolding m'_def by auto
        have "map_of (patches (snd (prune_fixed d (i + 1) ps m'))) (ps ! i) = Some pt"
          by (rule prune_fixed_keeps [OF pt])
        with pt unfixed show ?thesis
          unfolding eq qi by (simp add: patch_is_fixed_def)
      qed
    qed
  qed
qed

text \<open>
  C8. In every call of \<open>fix_patches\<close>, whatever the input patches and the map, the
  positions handed to the constructor of the Gibbs field (the positions that the sweeps
  are run on) contain no position twice.
\<close>

theorem positions_to_sample_distinct:
  "fix_patches d sample ps m
     = fold set_fixed ps
         ((sample (fst (positions_to_sample d ps m))
             ^^ unat (gibbs_iterations (snd (positions_to_sample d ps m))))
            (snd (positions_to_sample d ps m)))
   \<and> distinct (fst (positions_to_sample d ps m))"
  by (simp add: fix_patches_def split_beta positions_to_sample_def prune_fixed_distinct
      distinct_collect_positions)

section \<open>The sampler contract and scenario S1\<close>

lemma index_shape_funpow:
  assumes "sampler_contract sample"
  shows "index_shape ((sample ps ^^ k) m) = index_shape m"
  using assms by (induction k) (simp_all add: sampler_contract_def)

lemma index_shape_set_fixed:
  "index_shape (set_fixed p m) = map (\<lambda>(q, f). (q, f \<or> q = p)) (index_shape m)"
  by (auto simp: index_shape_def set_fixed_def)

lemma index_shape_fold_set_fixed:
  "index_shape (fold set_fixed ps m) = fold (\<lambda>p. map (\<lambda>(q, f). (q, f \<or> q = p))) ps (index_shape m)"
  by (induction ps arbitrary: m) (simp_all add: index_shape_set_fixed)

lemma sampler_contract_idle: "sampler_contract idle_sampler"
  by (simp add: sampler_contract_def idle_sampler_def)

lemma sampler_contract_stamp: "sampler_contract stamp_sampler"
proof -
  have "map_of (map (\<lambda>(q, p). if q \<in> S then (q, f q p) else (q, p)) xs) q = map_of xs q"
    if "q \<notin> S" for xs :: "(position \<times> 'a patch) list" and S q f
    using that by (induction xs) auto
  then show ?thesis
    by (auto simp: sampler_contract_def stamp_sampler_def index_shape_def)
qed

lemmas position_eval = position_less_def word_sless_alt up_def down_def left_def right_def

lemma s1_collect:
  "collect_positions
     \<lparr>patches = [(\<lparr>pos_x = 0, pos_y = - 1\<rparr>, init_patch d), (\<lparr>pos_x = - 1, pos_y = - 1\<rparr>, init_patch d),
                 (\<lparr>pos_x = 0, pos_y = 0\<rparr>, init_patch d), (\<lparr>pos_x = - 1, pos_y = 0\<rparr>, init_patch d)],
      map_n = n, gibbs_iterations = g, rng = r, cache = c\<rparr>
     [\<lparr>pos_x = - 1, pos_y = 0\<rparr>, \<lparr>pos_x = 0, pos_y = 0\<rparr>,
      \<lparr>pos_x = - 1, pos_y = - 1\<rparr>, \<lparr>pos_x = 0, pos_y = - 1\<rparr>] []
   = [\<lparr>pos_x = - 2, pos_y = - 2\<rparr>, \<lparr>pos_x = - 2, pos_y = - 1\<rparr>, \<lparr>pos_x = - 2, pos_y = 0\<rparr>, \<lparr>pos_x = - 2, pos_y = 1\<rparr>,
      \<lparr>pos_x = - 1, pos_y = - 2\<rparr>, \<lparr>pos_x = - 1, pos_y = - 1\<rparr>, \<lparr>pos_x = - 1, pos_y = 0\<rparr>, \<lparr>pos_x = - 1, pos_y = 1\<rparr>,
      \<lparr>pos_x = 0, pos_y = - 2\<rparr>, \<lparr>pos_x = 0, pos_y = - 1\<rparr>, \<lparr>pos_x = 0, pos_y = 0\<rparr>, \<lparr>pos_x = 0, pos_y = 1\<rparr>,
      \<lparr>pos_x = 1, pos_y = - 2\<rparr>, \<lparr>pos_x = 1, pos_y = - 1\<rparr>, \<lparr>pos_x = 1, pos_y = 0\<rparr>, \<lparr>pos_x = 1, pos_y = 1\<rparr>]"
  by (simp add: patch_is_fixed_def init_patch_def halo_def insertion_sort_def position_eval)

lemma map_ctor_eq:
  "map_ctor mk n g its seed nd now
     = \<lparr>patches = [], map_n = n, gibbs_iterations = g,
        rng = minstd_seed (if nd then now else 0), cache = mk its n\<rparr>"
  by (simp add: map_ctor_def Let_def)

lemma s1_prune:
  "index_shape (snd (prune_fixed d 0
     [\<lparr>pos_x = - 2, pos_y = - 2\<rparr>, \<lparr>pos_x = - 2, pos_y = - 1\<rparr>, \<lparr>pos_x = - 2, pos_y = 0\<rparr>, \<lparr>pos_x = - 2, pos_y = 1\<rparr>,
      \<lparr>pos_x = - 1, pos_y = - 2\<rparr>, \<lparr>pos_x = - 1, pos_y = - 1\<rparr>, \<lparr>pos_x = - 1, pos_y = 0\<rparr>, \<lparr>pos_x = - 1, pos_y = 1\<rparr>,
      \<lparr>pos_x = 0, pos_y = - 2\<rparr>, \<lparr>pos_x = 0, pos_y = - 1\<rparr>, \<lparr>pos_x = 0, pos_y = 0\<rparr>, \<lparr>pos_x = 0, pos_y = 1\<rparr>,
      \<lparr>pos_x = 1, pos_y = - 2\<rparr>, \<lparr>pos_x = 1, pos_y = - 1\<rparr>, \<lparr>pos_x = 1, pos_y = 0\<rparr>, \<lparr>pos_x = 1, pos_y = 1\<rparr>]
     \<lparr>patches = [(\<lparr>pos_x = 0, pos_y = - 1\<rparr>, init_patch d), (\<lparr>pos_x = - 1, pos_y = - 1\<rparr>, init_patch d),
                 (\<lparr>pos_x = 0, pos_y = 0\<rparr>, init_patch d), (\<lparr>pos_x = - 1, pos_y = 0\<rparr>, init_patch d)],
      map_n = n, gibbs_iterations = g, rng = r, cache = c\<rparr>))
   = [(\<lparr>pos_x = 1, pos_y = 1\<rparr>, False), (\<lparr>pos_x = 1, pos_y = 0\<rparr>, False),
      (\<lparr>pos_x = 1, pos_y = - 1\<rparr>, False), (\<lparr>pos_x = 1, pos_y = - 2\<rparr>, False),
      (\<lparr>pos_x = 0, pos_y = 1\<rparr>, False), (\<lparr>pos_x = 0, pos_y = - 2\<rparr>, False),
      (\<lparr>pos_x = - 1, pos_y = 1\<rparr>, False), (\<lparr>pos_x = - 1, pos_y = - 2\<rparr>, False),
      (\<lparr>pos_x = - 2, pos_y = 1\<rparr>, False), (\<lparr>pos_x = - 2, pos_y = 0\<rparr>, False),
      (\<lparr>pos_x = - 2, pos_y = - 1\<rparr>, False), (\<lparr>pos_x = - 2, pos_y = - 2\<rparr>, False),
      (\<lparr>pos_x = 0, pos_y = - 1\<rparr>, False), (\<lparr>pos_x = - 1, pos_y = - 1\<rparr>, False),
      (\<lparr>pos_x = 0, pos_y = 0\<rparr>, False), (\<lparr>pos_x = - 1, pos_y = 0\<rparr>, False)]"
  by (simp add: prune_fixed.simps get_or_make_patch_def patch_is_fixed_def init_patch_def
      index_shape_def)

lemma s1_shape:
  assumes "sampler_contract sample"
  shows "index_shape (snd (snd (get_fixed_neighborhood d sample \<lparr>pos_x = 0, pos_y = 0\<rparr>
            (map_ctor mk 8 g its seed nd now))))
   = [(\<lparr>pos_x = 1, pos_y = 1\<rparr>, False), (\<lparr>pos_x = 1, pos_y = 0\<rparr>, False),
      (\<lparr>pos_x = 1, pos_y = - 1\<rparr>, False), (\<lparr>pos_x = 1, pos_y = - 2\<rparr>, False),
      (\<lparr>pos_x = 0, pos_y = 1\<rparr>, False), (\<lparr>pos_x = 0, pos_y = - 2\<rparr>, False),
      (\<lparr>pos_x = - 1, pos_y = 1\<rparr>, False), (\<lparr>pos_x = - 1, pos_y = - 2\<rparr>, False),
      (\<lparr>pos_x = - 2, pos_y = 1\<rparr>, False), (\<lparr>pos_x = - 2, pos_y = 0\<rparr>, False),
      (\<lparr>pos_x = - 2, pos_y = - 1\<rparr>, False), (\<lparr>pos_x = - 2, pos_y = - 2\<rparr>, False),
      (\<lparr>pos_x = 0, pos_y = - 1\<rparr>, True), (\<lparr>pos_x = - 1, pos_y = - 1\<rparr>, True),
      (\<lparr>pos_x = 0, pos_y = 0\<rparr>, True), (\<lparr>pos_x = - 1, pos_y = 0\<rparr>, True)]"
proof -
  define r where "r = minstd_seed (if nd then now else 0)"
  define m1 :: "('a, 'b) map_state" where "m1 =
       \<lparr>patches = [(\<lparr>pos_x = 0, pos_y = - 1\<rparr>, init_patch d), (\<lparr>pos_x = - 1, pos_y = - 1\<rparr>, init_patch d),
                 (\<lparr>pos_x = 0, pos_y = 0\<rparr>, init_patch d), (\<lparr>pos_x = - 1, pos_y = 0\<rparr>, init_patch d)],
         map_n = 8, gibbs_iterations = g, rng = r, cache = mk its 8\<rparr>"
  have m1: "fold (get_or_make_patch d)
        [\<lparr>pos_x = - 1, pos_y = 0\<rparr>, \<lparr>pos_x = 0, pos_y = 0\<rparr>,
         \<lparr>pos_x = - 1, pos_y = - 1\<rparr>, \<lparr>pos_x = 0, pos_y = - 1\<rparr>]
        (map_ctor mk 8 g its seed nd now) = m1"
    unfolding map_ctor_eq m1_def r_def [symmetric]
    by (simp add: get_or_make_patch_def)
  obtain positions m2 where pr: "positions_to_sample d
        [\<lparr>pos_x = - 1, pos_y = 0\<rparr>, \<lparr>pos_x = 0, pos_y = 0\<rparr>,
         \<lparr>pos_x = - 1, pos_y = - 1\<rparr>, \<lparr>pos_x = 0, pos_y = - 1\<rparr>] m1 = (positions, m2)"
    by (cases "positions_to_sample d
        [\<lparr>pos_x = - 1, pos_y = 0\<rparr>, \<lparr>pos_x = 0, pos_y = 0\<rparr>,
         \<lparr>pos_x = - 1, pos_y = - 1\<rparr>, \<lparr>pos_x = 0, pos_y = - 1\<rparr>] m1")
  have m2: "m2 = snd (prune_fixed d 0 (collect_positions m1
        [\<lparr>pos_x = - 1, pos_y = 0\<rparr>, \<lparr>pos_x = 0, pos_y = 0\<rparr>,
         \<lparr>pos_x = - 1, pos_y = - 1\<rparr>, \<lparr>pos_x = 0, pos_y = - 1\<rparr>] []) m1)"
    using pr by (simp add: positions_to_sample_def)
  have sh2: "index_shape m2
   = [(\<lparr>pos_x = 1, pos_y = 1\<rparr>, False), (\<lparr>pos_x = 1, pos_y = 0\<rparr>, False),
      (\<lparr>pos_x = 1, pos_y = - 1\<rparr>, False), (\<lparr>pos_x = 1, pos_y = - 2\<rparr>, False),
      (\<lparr>pos_x = 0, pos_y = 1\<rparr>, False), (\<lparr>pos_x = 0, pos_y = - 2\<rparr>, False),
      (\<lparr>pos_x = - 1, pos_y = 1\<rparr>, False), (\<lparr>pos_x = - 1, pos_y = - 2\<rparr>, False),
      (\<lparr>pos_x = - 2, pos_y = 1\<rparr>, False), (\<lparr>pos_x = - 2, pos_y = 0\<rparr>, False),
      (\<lparr>pos_x = - 2, pos_y = - 1\<rparr>, False), (\<lparr>pos_x = - 2, pos_y = - 2\<rparr>, False),
      (\<lparr>pos_x = 0, pos_y = - 1\<rparr>, False), (\<lparr>pos_x = - 1, pos_y = - 1\<rparr>, False),
      (\<lparr>pos_x = 0, pos_y = 0\<rparr>, False), (\<lparr>pos_x = - 1, pos_y = 0\<rparr>, False)]"
    unfolding m2 m1_def s1_collect by (rule s1_prune)
  have res: "snd (snd (get_fixed_neighborhood d sample \<lparr>pos_x = 0, pos_y = 0\<rparr>
            (map_ctor mk 8 g its seed nd now)))
      = fold set_fixed [\<lparr>pos_x = - 1, pos_y = 0\<rparr>, \<lparr>pos_x = 0, pos_y = 0\<rparr>,
         \<lparr>pos_x = - 1, pos_y = - 1\<rparr>, \<lparr>pos_x = 0, pos_y = - 1\<rparr>]
          ((sample positions ^^ unat (gibbs_iterations m2)) m2)"
    unfolding get_fixed_neighborhood_def map_n_map_ctor neighborhood_positions_0_0
      Let_def prod.case snd_conv m1 fix_patches_def pr ..
  show ?thesis
    unfolding res index_shape_fold_set_fixed index_shape_funpow [OF assms] sh2
    by simp
qed

section \<open>Fixed patches stay as they are\<close>

lemma fold_get_or_make_patch_keeps:
  "map_of (patches m) q = Some pt \<Longrightarrow>
   map_of (patches (fold (get_or_make_patch d) ps m)) q = Some pt"
  by (induction ps arbitrary: m) (simp_all add: get_or_make_patch_keeps)

lemma fold_get_or_make_patch_exists:
  "p \<in> set ps \<Longrightarrow> map_of (patches (fold (get_or_make_patch d) ps m)) p \<noteq> None"
proof (induction ps arbitrary: m)
  case Nil
  then show ?case by simp
next
  case (Cons a ps)
  show ?case
  proof (cases "p = a")
    case True
    obtain pt where "map_of (patches (get_or_make_patch d a m)) a = Some pt"
      using get_or_make_patch_exists [of d a m] by auto
    then show ?thesis
      using fold_get_or_make_patch_keeps True by fastforce
  next
    case False
    with Cons show ?thesis by simp
  qed
qed

lemma map_of_index_shape:
  "map_of (index_shape m) q = map_option fixed (map_of (patches m) q)"
proof -
  have "map_of (map (\<lambda>(q, p). (q, fixed p)) xs) q = map_option fixed (map_of xs q)"
    for xs :: "(position \<times> 'a patch) list"
    by (induction xs) auto
  then show ?thesis by (simp add: index_shape_def)
qed

lemma patch_is_fixed_index_shape:
  "patch_is_fixed m q = (map_of (index_shape m) q = Some True)"
  by (auto simp: patch_is_fixed_def map_of_index_shape split: option.splits)

lemma map_of_set_fixed:
  "map_of (patches (set_fixed p m)) q
     = map_option (\<lambda>pt. if q = p then pt\<lparr>fixed := True\<rparr> else pt) (map_of (patches m) q)"
proof -
  have "map_of (map (\<lambda>(q, pt). if q = p then (q, pt\<lparr>fixed := True\<rparr>) else (q, pt)) xs) q
          = map_option (\<lambda>pt. if q = p then pt\<lparr>fixed := True\<rparr> else pt) (map_of xs q)"
    for xs :: "(position \<times> 'a patch) list"
    by (induction xs) auto
  then show ?thesis by (simp add: set_fixed_def)
qed

lemma map_of_fold_set_fixed:
  "map_of (patches (fold set_fixed ps m)) q
     = map_option (\<lambda>pt. if q \<in> set ps then pt\<lparr>fixed := True\<rparr> else pt) (map_of (patches m) q)"
proof (induction ps arbitrary: m)
  case Nil
  then show ?case by (simp add: option.map_ident)
next
  case (Cons a ps)
  show ?case
    by (cases "map_of (patches m) q") (auto simp: Cons map_of_set_fixed)
qed

lemma sampler_contract_frame:
  assumes "sampler_contract sample" and "q \<notin> set positions"
  shows "map_of (patches ((sample positions ^^ k) m)) q = map_of (patches m) q"
  using assms by (induction k) (simp_all add: sampler_contract_def)

lemma sampler_contract_exists:
  assumes "sampler_contract sample"
  shows "map_of (patches ((sample positions ^^ k) m)) q = None \<longleftrightarrow> map_of (patches m) q = None"
proof -
  have "map_of (index_shape ((sample positions ^^ k) m)) q = map_of (index_shape m) q"
    by (simp add: index_shape_funpow [OF assms])
  then show ?thesis
    unfolding map_of_index_shape
    by (cases "map_of (patches ((sample positions ^^ k) m)) q"; cases "map_of (patches m) q")
       simp_all
qed

lemma positions_to_sample_keeps:
  assumes "positions_to_sample d ps m = (positions, m')"
    and "map_of (patches m) q = Some pt"
  shows "map_of (patches m') q = Some pt"
  using prune_fixed_keeps [OF assms(2), of d 0 "collect_positions m ps []"] assms(1)
  by (simp add: positions_to_sample_def)

lemma positions_to_sample_unfixed:
  assumes "positions_to_sample d ps m = (positions, m')"
    and "q \<in> set positions"
  shows "\<not> patch_is_fixed m' q"
  using prune_fixed_unfixed [of q 0 d "collect_positions m ps []" m] assms
  by (simp add: positions_to_sample_def)

lemma fix_patches_keeps_fixed:
  assumes c: "sampler_contract sample"
    and q: "map_of (patches m) q = Some pt" and f: "fixed pt"
  shows "map_of (patches (fix_patches d sample ps m)) q = Some pt"
proof -
  obtain positions m1 where pr: "positions_to_sample d ps m = (positions, m1)"
    by (cases "positions_to_sample d ps m")
  have q1: "map_of (patches m1) q = Some pt"
    by (rule positions_to_sample_keeps [OF pr q])
  then have "patch_is_fixed m1 q" using f by (simp add: patch_is_fixed_def)
  then have "q \<notin> set positions"
    using positions_to_sample_unfixed [OF pr] by blast
  then have "map_of (patches ((sample positions ^^ unat (gibbs_iterations m1)) m1)) q = Some pt"
    using sampler_contract_frame [OF c] q1 by simp
  moreover have "pt\<lparr>fixed := True\<rparr> = pt" using f by simp
  ultimately show ?thesis
    by (simp add: fix_patches_def pr map_of_fold_set_fixed)
qed

lemma fix_patches_fixes:
  assumes c: "sampler_contract sample"
    and p: "p \<in> set ps" and e: "map_of (patches m) p \<noteq> None"
  shows "\<exists>pt. map_of (patches (fix_patches d sample ps m)) p = Some pt \<and> fixed pt"
proof -
  obtain positions m1 where pr: "positions_to_sample d ps m = (positions, m1)"
    by (cases "positions_to_sample d ps m")
  from e obtain pt where "map_of (patches m) p = Some pt" by auto
  then have "map_of (patches m1) p = Some pt"
    by (rule positions_to_sample_keeps [OF pr])
  then have "map_of (patches ((sample positions ^^ unat (gibbs_iterations m1)) m1)) p \<noteq> None"
    by (simp add: sampler_contract_exists [OF c])
  then obtain pt' where
    "map_of (patches ((sample positions ^^ unat (gibbs_iterations m1)) m1)) p = Some pt'"
    by auto
  then show ?thesis
    using p by (simp add: fix_patches_def pr map_of_fold_set_fixed)
qed

lemma get_fixed_neighborhood_keeps_fixed:
  assumes "sampler_contract sample"
    and "get_patch_if_exists m q = Some pt" and "fixed pt"
  shows "get_patch_if_exists (snd (snd (get_fixed_neighborhood d sample w m))) q = Some pt"
  using assms
  by (simp add: get_fixed_neighborhood_def get_patch_if_exists_def Let_def split_beta
      fix_patches_keeps_fixed fold_get_or_make_patch_keeps)

lemma get_fixed_neighborhood_fixes:
  assumes "sampler_contract sample"
    and "get_fixed_neighborhood d sample w m = (index, ps, m')"
    and "p \<in> set ps"
  shows "\<exists>pt. get_patch_if_exists m' p = Some pt \<and> fixed pt"
proof -
  from assms(2) have ps: "ps = snd (get_neighborhood_positions w (map_n m))"
    and m': "m' = fix_patches d sample ps (fold (get_or_make_patch d) ps m)"
    by (auto simp: get_fixed_neighborhood_def Let_def split_beta)
  show ?thesis
    unfolding m' get_patch_if_exists_def
    by (rule fix_patches_fixes [OF assms(1) assms(3) fold_get_or_make_patch_exists [OF assms(3)]])
qed

lemma run_queries_keep_fixed:
  assumes "sampler_contract sample"
    and "get_patch_if_exists m q = Some pt" and "fixed pt"
  shows "get_patch_if_exists (fold (run_query d sample) qs m) q = Some pt"
  using assms(2)
proof (induction qs arbitrary: m)
  case Nil
  then show ?case by simp
next
  case (Cons a qs)
  have "get_patch_if_exists (run_query d sample a m) q = Some pt"
    using Cons.prems assms(1,3)
    by (cases a) (simp_all add: get_fixed_neighborhood_keeps_fixed)
  then show ?case using Cons.IH by simp
qed

text \<open>
  C2. With a sampler that keeps its contract: when \<open>get_fixed_neighborhood(w)\<close>
  returns, each of the four returned patches exists and has \<open>fixed = true\<close>; and a
  patch that is fixed in a map is the same patch, with the same items, after every
  sequence of later queries, the later calls of \<open>get_fixed_neighborhood\<close> and the
  \<open>fix_patches\<close> they run included.
\<close>

theorem fixed_patches_immutable:
  assumes "sampler_contract sample"
  shows "(get_fixed_neighborhood d sample w m = (index, ps, m') \<longrightarrow>
            (\<forall>p \<in> set ps. \<exists>pt. get_patch_if_exists m' p = Some pt \<and> fixed pt))
       \<and> (get_patch_if_exists m q = Some pt \<and> fixed pt \<longrightarrow>
            get_patch_if_exists (fold (run_query d sample) qs m) q = Some pt)"
  using get_fixed_neighborhood_fixes [OF assms] run_queries_keep_fixed [OF assms]
  by blast

theorem fixed_patches_immutable_witness:
  "sampler_contract (stamp_sampler :: position list \<Rightarrow> (unit, unit) map_state \<Rightarrow> (unit, unit) map_state)
   \<and> (\<exists>pt. get_patch_if_exists
               (snd (snd (get_fixed_neighborhood () stamp_sampler \<lparr>pos_x = 0, pos_y = 0\<rparr>
                            scenario_map)))
               \<lparr>pos_x = 0, pos_y = 0\<rparr> = Some pt
            \<and> fixed pt
            \<and> get_patch_if_exists
                 (fold (run_query () stamp_sampler)
                    [Get_fixed_neighborhood \<lparr>pos_x = 7, pos_y = 7\<rparr>,
                     Get_neighborhood \<lparr>pos_x = 0, pos_y = 0\<rparr>,
                     Get_fixed_neighborhood \<lparr>pos_x = - 9, pos_y = 3\<rparr>]
                    (snd (snd (get_fixed_neighborhood () stamp_sampler \<lparr>pos_x = 0, pos_y = 0\<rparr>
                                 scenario_map))))
                 \<lparr>pos_x = 0, pos_y = 0\<rparr> = Some pt)"
proof -
  define r where "r = get_fixed_neighborhood () stamp_sampler \<lparr>pos_x = 0, pos_y = 0\<rparr> scenario_map"
  have c: "sampler_contract (stamp_sampler :: position list \<Rightarrow> (unit, unit) map_state \<Rightarrow> (unit, unit) map_state)"
    by (rule sampler_contract_stamp)
  have eq: "get_fixed_neighborhood () stamp_sampler \<lparr>pos_x = 0, pos_y = 0\<rparr> scenario_map
              = (fst r, fst (snd r), snd (snd r))"
    by (simp add: r_def)
  have mem: "\<lparr>pos_x = 0, pos_y = 0\<rparr> \<in> set (fst (snd r))"
    by (simp add: r_def get_fixed_neighborhood_positions scenario_map_def
        neighborhood_positions_0_0)
  from fixed_patches_immutable [OF c, THEN conjunct1, rule_format, OF eq mem]
  obtain pt where pt: "get_patch_if_exists (snd (snd r)) \<lparr>pos_x = 0, pos_y = 0\<rparr> = Some pt"
    "fixed pt" by blast
  from fixed_patches_immutable [OF c, THEN conjunct2, rule_format, OF conjI [OF pt]]
  have "get_patch_if_exists
          (fold (run_query () stamp_sampler)
             [Get_fixed_neighborhood \<lparr>pos_x = 7, pos_y = 7\<rparr>,
              Get_neighborhood \<lparr>pos_x = 0, pos_y = 0\<rparr>,
              Get_fixed_neighborhood \<lparr>pos_x = - 9, pos_y = 3\<rparr>] (snd (snd r)))
          \<lparr>pos_x = 0, pos_y = 0\<rparr> = Some pt" .
  with c pt show ?thesis unfolding r_def by blast
qed

section \<open>Scenario S4\<close>

lemma fold_get_or_make_patch_absent:
  "q \<notin> set ps \<Longrightarrow> map_of (patches (fold (get_or_make_patch d) ps m)) q = map_of (patches m) q"
  by (induction ps arbitrary: m) (simp_all add: map_of_get_or_make_patch)

lemma prune_fixed_new:
  "map_of (patches (snd (prune_fixed d i ps m))) q = Some pt
     \<Longrightarrow> map_of (patches m) q = Some pt \<or> pt = init_patch d"
proof (induction d i ps m rule: prune_fixed.induct)
  case (1 d i ps m)
  show ?case
  proof (cases "i < length ps")
    case False
    with "1.prems" show ?thesis by (simp add: prune_fixed.simps [of d i ps m])
  next
    case True
    define m' where "m' = get_or_make_patch d (ps ! i) m"
    have step: "map_of (patches m') q = Some pt \<Longrightarrow>
                  map_of (patches m) q = Some pt \<or> pt = init_patch d"
      by (auto simp: m'_def map_of_get_or_make_patch split: if_splits)
    show ?thesis
    proof (cases "patch_is_fixed m' (ps ! i)")
      case fixed: True
      have eq: "prune_fixed d i ps m = prune_fixed d i (array_remove i ps) m'"
        using True fixed by (simp add: prune_fixed.simps [of d i ps m] m'_def Let_def)
      from "1.IH"(1) [OF True m'_def fixed] "1.prems" step show ?thesis
        unfolding eq by blast
    next
      case unfixed: False
      have eq: "prune_fixed d i ps m = prune_fixed d (i + 1) ps m'"
        using True unfixed by (simp add: prune_fixed.simps [of d i ps m] m'_def Let_def)
      from "1.IH"(2) [OF True m'_def unfixed] "1.prems" step show ?thesis
        unfolding eq by blast
    qed
  qed
qed

lemma created_patches_stay_unfixed:
  assumes c: "sampler_contract sample"
    and r: "get_fixed_neighborhood d sample w m = (index, ps, m')"
    and q: "q \<notin> set ps" and absent: "get_patch_if_exists m q = None"
  shows "\<not> patch_is_fixed m' q"
proof -
  from r have ps: "ps = snd (get_neighborhood_positions w (map_n m))"
    and fx: "m' = fix_patches d sample ps (fold (get_or_make_patch d) ps m)"
    by (auto simp: get_fixed_neighborhood_def Let_def split_beta)
  define m1 where "m1 = fold (get_or_make_patch d) ps m"
  obtain positions m2 where pr: "positions_to_sample d ps m1 = (positions, m2)"
    by (cases "positions_to_sample d ps m1")
  define m3 where "m3 = (sample positions ^^ unat (gibbs_iterations m2)) m2"
  have m': "m' = fold set_fixed ps m3"
    unfolding fx m1_def [symmetric] by (simp add: fix_patches_def pr m3_def)
  have a1: "map_of (patches m1) q = None"
    using absent q by (simp add: m1_def fold_get_or_make_patch_absent get_patch_if_exists_def)
  have m2: "m2 = snd (prune_fixed d 0 (collect_positions m1 ps []) m1)"
    using pr by (simp add: positions_to_sample_def)
  have u2: "\<not> patch_is_fixed m2 q"
  proof (cases "map_of (patches m2) q")
    case None
    then show ?thesis by (simp add: patch_is_fixed_def)
  next
    case (Some pt)
    with prune_fixed_new [of d 0 "collect_positions m1 ps []" m1 q pt] a1
    have "pt = init_patch d" by (simp add: m2)
    with Some show ?thesis by (simp add: patch_is_fixed_def init_patch_def)
  qed
  have "index_shape m3 = index_shape m2"
    unfolding m3_def by (rule index_shape_funpow [OF c])
  with u2 have u3: "\<not> patch_is_fixed m3 q"
    by (simp add: patch_is_fixed_index_shape)
  show ?thesis
    using u3 q
    by (cases "map_of (patches m3) q")
       (simp_all add: m' patch_is_fixed_def map_of_fold_set_fixed)
qed

lemma s4_scenario:
  assumes "sampler_contract sample"
    and "get_fixed_neighborhood d sample \<lparr>pos_x = 0, pos_y = 0\<rparr> (map_ctor mk 8 g its seed nd now)
           = (index, ps, m')"
  shows "ps = [\<lparr>pos_x = - 1, pos_y = 0\<rparr>, \<lparr>pos_x = 0, pos_y = 0\<rparr>,
               \<lparr>pos_x = - 1, pos_y = - 1\<rparr>, \<lparr>pos_x = 0, pos_y = - 1\<rparr>]
       \<and> (\<forall>p \<in> set ps. patch_is_fixed m' p)
       \<and> distinct (map fst (index_shape m'))
       \<and> length (patches_outside ps m') = 12
       \<and> (\<forall>(q, f) \<in> set (patches_outside ps m'). \<not> f)
       \<and> set (map fst (patches_outside ps m'))
           = {\<lparr>pos_x = - 2, pos_y = 1\<rparr>, \<lparr>pos_x = - 1, pos_y = 1\<rparr>,
              \<lparr>pos_x = 0, pos_y = 1\<rparr>, \<lparr>pos_x = 1, pos_y = 1\<rparr>,
              \<lparr>pos_x = - 2, pos_y = 0\<rparr>, \<lparr>pos_x = 1, pos_y = 0\<rparr>,
              \<lparr>pos_x = - 2, pos_y = - 1\<rparr>, \<lparr>pos_x = 1, pos_y = - 1\<rparr>,
              \<lparr>pos_x = - 2, pos_y = - 2\<rparr>, \<lparr>pos_x = - 1, pos_y = - 2\<rparr>,
              \<lparr>pos_x = 0, pos_y = - 2\<rparr>, \<lparr>pos_x = 1, pos_y = - 2\<rparr>}"
proof -
  from assms(2) have ps: "ps = [\<lparr>pos_x = - 1, pos_y = 0\<rparr>, \<lparr>pos_x = 0, pos_y = 0\<rparr>,
               \<lparr>pos_x = - 1, pos_y = - 1\<rparr>, \<lparr>pos_x = 0, pos_y = - 1\<rparr>]"
    using get_fixed_neighborhood_positions(2)
      [of d sample "\<lparr>pos_x = 0, pos_y = 0\<rparr>" "map_ctor mk 8 g its seed nd now"]
    by (simp add: neighborhood_positions_0_0)
  from assms(2) have m': "m' = snd (snd (get_fixed_neighborhood d sample
       \<lparr>pos_x = 0, pos_y = 0\<rparr> (map_ctor mk 8 g its seed nd now)))" by simp
  note sh = s1_shape [OF assms(1), of d mk g its seed nd now, folded m']
  show ?thesis
    unfolding patches_outside_def patch_is_fixed_index_shape sh ps
    by (simp add: insert_commute)
qed

text \<open>
  C7, as the code has it. With a sampler that keeps its contract, after
  \<open>get_fixed_neighborhood((0, 0))\<close> on a fresh map with \<open>n = 8\<close>, the four returned
  patches \<open>(-1, 0)\<close>, \<open>(0, 0)\<close>, \<open>(-1, -1)\<close>, \<open>(0, -1)\<close> have \<open>fixed = true\<close>, and
  exactly 12 patches outside that 2x2 block exist, the ring around it, each with
  \<open>fixed = false\<close>. In general, for every map and world position, a patch that did
  not exist before the call and is not one of the four returned patches is not fixed
  after the call.
\<close>

theorem s4_halo_patches:
  assumes "sampler_contract sample"
  shows "(get_fixed_neighborhood d sample \<lparr>pos_x = 0, pos_y = 0\<rparr>
            (map_ctor mk 8 g its seed nd now) = (index, ps, m') \<longrightarrow>
          ps = [\<lparr>pos_x = - 1, pos_y = 0\<rparr>, \<lparr>pos_x = 0, pos_y = 0\<rparr>,
                \<lparr>pos_x = - 1, pos_y = - 1\<rparr>, \<lparr>pos_x = 0, pos_y = - 1\<rparr>]
        \<and> (\<forall>p \<in> set ps. patch_is_fixed m' p)
        \<and> distinct (map fst (index_shape m'))
        \<and> length (patches_outside ps m') = 12
        \<and> (\<forall>(q, f) \<in> set (patches_outside ps m'). \<not> f)
        \<and> set (map fst (patches_outside ps m'))
            = {\<lparr>pos_x = - 2, pos_y = 1\<rparr>, \<lparr>pos_x = - 1, pos_y = 1\<rparr>,
               \<lparr>pos_x = 0, pos_y = 1\<rparr>, \<lparr>pos_x = 1, pos_y = 1\<rparr>,
               \<lparr>pos_x = - 2, pos_y = 0\<rparr>, \<lparr>pos_x = 1, pos_y = 0\<rparr>,
               \<lparr>pos_x = - 2, pos_y = - 1\<rparr>, \<lparr>pos_x = 1, pos_y = - 1\<rparr>,
               \<lparr>pos_x = - 2, pos_y = - 2\<rparr>, \<lparr>pos_x = - 1, pos_y = - 2\<rparr>,
               \<lparr>pos_x = 0, pos_y = - 2\<rparr>, \<lparr>pos_x = 1, pos_y = - 2\<rparr>})
       \<and> (get_fixed_neighborhood d sample w m0 = (index0, ps0, m1)
            \<and> q \<notin> set ps0 \<and> get_patch_if_exists m0 q = None \<longrightarrow>
          \<not> patch_is_fixed m1 q)"
proof (rule conjI)
  show "get_fixed_neighborhood d sample \<lparr>pos_x = 0, pos_y = 0\<rparr>
            (map_ctor mk 8 g its seed nd now) = (index, ps, m') \<longrightarrow>
          ps = [\<lparr>pos_x = - 1, pos_y = 0\<rparr>, \<lparr>pos_x = 0, pos_y = 0\<rparr>,
                \<lparr>pos_x = - 1, pos_y = - 1\<rparr>, \<lparr>pos_x = 0, pos_y = - 1\<rparr>]
        \<and> (\<forall>p \<in> set ps. patch_is_fixed m' p)
        \<and> distinct (map fst (index_shape m'))
        \<and> length (patches_outside ps m') = 12
        \<and> (\<forall>(q, f) \<in> set (patches_outside ps m'). \<not> f)
        \<and> set (map fst (patches_outside ps m'))
            = {\<lparr>pos_x = - 2, pos_y = 1\<rparr>, \<lparr>pos_x = - 1, pos_y = 1\<rparr>,
               \<lparr>pos_x = 0, pos_y = 1\<rparr>, \<lparr>pos_x = 1, pos_y = 1\<rparr>,
               \<lparr>pos_x = - 2, pos_y = 0\<rparr>, \<lparr>pos_x = 1, pos_y = 0\<rparr>,
               \<lparr>pos_x = - 2, pos_y = - 1\<rparr>, \<lparr>pos_x = 1, pos_y = - 1\<rparr>,
               \<lparr>pos_x = - 2, pos_y = - 2\<rparr>, \<lparr>pos_x = - 1, pos_y = - 2\<rparr>,
               \<lparr>pos_x = 0, pos_y = - 2\<rparr>, \<lparr>pos_x = 1, pos_y = - 2\<rparr>}"
    by (rule impI) (rule s4_scenario [OF assms])
next
  show "get_fixed_neighborhood d sample w m0 = (index0, ps0, m1)
            \<and> q \<notin> set ps0 \<and> get_patch_if_exists m0 q = None \<longrightarrow>
          \<not> patch_is_fixed m1 q"
    using created_patches_stay_unfixed [OF assms] by blast
qed

theorem s4_halo_patches_witness:
  "sampler_contract (stamp_sampler :: position list \<Rightarrow> (unit, unit) map_state \<Rightarrow> (unit, unit) map_state)
   \<and> patch_is_fixed
        (snd (snd (get_fixed_neighborhood () stamp_sampler \<lparr>pos_x = 0, pos_y = 0\<rparr> scenario_map)))
        \<lparr>pos_x = 0, pos_y = 0\<rparr>
   \<and> length (patches_outside
               (fst (snd (get_fixed_neighborhood () stamp_sampler \<lparr>pos_x = 0, pos_y = 0\<rparr>
                            scenario_map)))
               (snd (snd (get_fixed_neighborhood () stamp_sampler \<lparr>pos_x = 0, pos_y = 0\<rparr>
                            scenario_map)))) = 12
   \<and> \<lparr>pos_x = 1, pos_y = 1\<rparr>
        \<notin> set (fst (snd (get_fixed_neighborhood () stamp_sampler \<lparr>pos_x = 0, pos_y = 0\<rparr>
                            scenario_map)))
   \<and> get_patch_if_exists scenario_map \<lparr>pos_x = 1, pos_y = 1\<rparr> = None
   \<and> \<not> patch_is_fixed
          (snd (snd (get_fixed_neighborhood () stamp_sampler \<lparr>pos_x = 0, pos_y = 0\<rparr> scenario_map)))
          \<lparr>pos_x = 1, pos_y = 1\<rparr>"
proof -
  define r where "r = get_fixed_neighborhood () stamp_sampler \<lparr>pos_x = 0, pos_y = 0\<rparr>
                        (map_ctor no_cache 8 10 [()] 42 False 0)"
  have c: "sampler_contract (stamp_sampler :: position list \<Rightarrow> (unit, unit) map_state \<Rightarrow> (unit, unit) map_state)"
    by (rule sampler_contract_stamp)
  have eq: "get_fixed_neighborhood () stamp_sampler \<lparr>pos_x = 0, pos_y = 0\<rparr>
              (map_ctor no_cache 8 10 [()] 42 False 0) = (fst r, fst (snd r), snd (snd r))"
    by (simp add: r_def)
  note h = s4_halo_patches [OF c, THEN conjunct1, rule_format, OF eq]
  from h have f: "patch_is_fixed (snd (snd r)) \<lparr>pos_x = 0, pos_y = 0\<rparr>" by simp
  from h have l: "length (patches_outside (fst (snd r)) (snd (snd r))) = 12" by blast
  from h have out: "\<lparr>pos_x = 1, pos_y = 1\<rparr> \<notin> set (fst (snd r))" by simp
  have absent: "get_patch_if_exists (map_ctor no_cache 8 10 [()] 42 False 0 :: (unit, unit) map_state)
                  \<lparr>pos_x = 1, pos_y = 1\<rparr> = None"
    by (simp add: get_patch_if_exists_def)
  from s4_halo_patches [OF c, THEN conjunct2, rule_format, OF conjI [OF eq conjI [OF out absent]]]
  have u: "\<not> patch_is_fixed (snd (snd r)) \<lparr>pos_x = 1, pos_y = 1\<rparr>" .
  from c f l out absent u show ?thesis unfolding r_def scenario_map_def by blast
qed

text \<open>
  C7, as it is stated, fails: the number of patches outside the block is not 5.
\<close>

theorem s4_counterexample:
  "length (patches_outside
            [\<lparr>pos_x = - 1, pos_y = 0\<rparr>, \<lparr>pos_x = 0, pos_y = 0\<rparr>,
             \<lparr>pos_x = - 1, pos_y = - 1\<rparr>, \<lparr>pos_x = 0, pos_y = - 1\<rparr>]
            (snd (snd (get_fixed_neighborhood () stamp_sampler \<lparr>pos_x = 0, pos_y = 0\<rparr>
                         scenario_map)))) \<noteq> 5"
  unfolding patches_outside_def scenario_map_def s1_shape [OF sampler_contract_stamp]
  by simp

section \<open>Seeding in the constructor\<close>

text \<open>
  C1. The claim says that the state of the generator after construction with seed
  \<open>s\<close> is the state determined by \<open>s\<close>. The constructor seeds with \<open>s\<close> and then
  seeds again, with 0 in a debug build and with the clock otherwise: the state does
  not depend on \<open>s\<close>. For seed 42 it is 1 in a debug build and the clock value in a
  release build, where the state determined by 42 is 42, which is what the free
  function \<open>init\<close> sets.
\<close>

theorem map_ctor_discards_seed:
  "rng (map_ctor mk n g its seed False now) = 1
   \<and> rng (map_ctor mk n g its seed True now) = minstd_seed now
   \<and> rng (init_map mk n g its seed) = minstd_seed seed
   \<and> rng scenario_map = 1
   \<and> rng (map_ctor no_cache 8 10 [()] 42 True 1000) = 1000
   \<and> rng (map_ctor no_cache 8 10 [()] 42 True 2000) = 2000
   \<and> rng (init_map no_cache 8 10 [()] 42) = 42"
  by (simp add: map_ctor_def init_map_def scenario_map_def Let_def minstd_seed_def
      minstd_modulus_def)

section \<open>The dispatch on the quadrant\<close>

lemma snd_call_with_draws_record:
  "snd (call_with_draws record_call h ox oy nb (m, log))
     = log @ [(fst (rng_draw m) mod h + ox,
               fst (rng_draw (snd (rng_draw m))) mod h + oy, nb, length nb)]"
  by (simp add: call_with_draws_def record_call_def Let_def split_beta)

lemma length_call_with_draws_record:
  "length (snd (call_with_draws record_call h ox oy nb st)) = Suc (length (snd st))"
  by (cases st) (simp add: snd_call_with_draws_record)

lemma iterate_step_calls:
  "length (snd (iterate_step record_call h nbs (m, log)))
     = length log + (4 - fst (rng_draw m) mod 4)"
proof -
  have "fst (rng_draw m) mod 4 < 4" by simp
  then consider "fst (rng_draw m) mod 4 = 0" | "fst (rng_draw m) mod 4 = 1"
    | "fst (rng_draw m) mod 4 = 2" | "fst (rng_draw m) mod 4 = 3"
    by linarith
  then show ?thesis
    by cases
      (simp_all add: iterate_step_def Let_def split_beta length_call_with_draws_record)
qed

text \<open>
  C4. The claim says that every round of the loop invokes the callback exactly once.
  On the map with \<open>n = 2\<close> the loop has 4 rounds and the callback is invoked 8
  times: the selectors drawn are 3, 1, 3, 1, and a round with selector 1 runs the
  cases 1, 2 and 3.
\<close>

theorem iterate_neighborhoods_fall_through:
  "snd (iterate_neighborhoods record_call \<lparr>pos_x = 0, pos_y = 0\<rparr> (two_by_two_map, []))
     = [(1, 1, [Some \<lparr>pos_x = 0, pos_y = 0\<rparr>], 1),
        (0, 1, [Some \<lparr>pos_x = 0, pos_y = 0\<rparr>], 1),
        (1, 0, [Some \<lparr>pos_x = 0, pos_y = 0\<rparr>], 1),
        (1, 1, [Some \<lparr>pos_x = 0, pos_y = 0\<rparr>], 1),
        (1, 1, [Some \<lparr>pos_x = 0, pos_y = 0\<rparr>], 1),
        (0, 1, [Some \<lparr>pos_x = 0, pos_y = 0\<rparr>], 1),
        (1, 0, [Some \<lparr>pos_x = 0, pos_y = 0\<rparr>], 1),
        (1, 1, [Some \<lparr>pos_x = 0, pos_y = 0\<rparr>], 1)]
   \<and> unat (map_n two_by_two_map * map_n two_by_two_map) = 4"
proof -
  have m: "two_by_two_map
     = \<lparr>patches = [(\<lparr>pos_x = 0, pos_y = 0\<rparr>, init_patch ())],
        map_n = 2, gibbs_iterations = 10, rng = 1, cache = ()\<rparr>"
    by (simp add: two_by_two_map_def map_ctor_def Let_def get_or_make_patch_def
        minstd_seed_def no_cache_def)
  have nb: "quadrant_neighborhoods two_by_two_map \<lparr>pos_x = 0, pos_y = 0\<rparr>
     = ([Some \<lparr>pos_x = 0, pos_y = 0\<rparr>], [Some \<lparr>pos_x = 0, pos_y = 0\<rparr>],
        [Some \<lparr>pos_x = 0, pos_y = 0\<rparr>], [Some \<lparr>pos_x = 0, pos_y = 0\<rparr>])"
    by (simp add: m quadrant_neighborhoods_def patch_pointer_def get_patch_if_exists_def
        present_def up_def down_def left_def right_def Let_def)
  have cnt: "unat (map_n two_by_two_map * map_n two_by_two_map) = Suc (Suc (Suc (Suc 0)))"
    by (simp add: m)
  have half: "unat (map_n two_by_two_map div 2) = 1"
    by (simp add: m)
  have run: "snd (iterate_neighborhoods record_call \<lparr>pos_x = 0, pos_y = 0\<rparr> (two_by_two_map, []))
     = [(1, 1, [Some \<lparr>pos_x = 0, pos_y = 0\<rparr>], 1),
        (0, 1, [Some \<lparr>pos_x = 0, pos_y = 0\<rparr>], 1),
        (1, 0, [Some \<lparr>pos_x = 0, pos_y = 0\<rparr>], 1),
        (1, 1, [Some \<lparr>pos_x = 0, pos_y = 0\<rparr>], 1),
        (1, 1, [Some \<lparr>pos_x = 0, pos_y = 0\<rparr>], 1),
        (0, 1, [Some \<lparr>pos_x = 0, pos_y = 0\<rparr>], 1),
        (1, 0, [Some \<lparr>pos_x = 0, pos_y = 0\<rparr>], 1),
        (1, 1, [Some \<lparr>pos_x = 0, pos_y = 0\<rparr>], 1)]"
    unfolding iterate_neighborhoods_def nb Let_def fst_conv cnt half funpow.simps o_apply id_apply
    by (simp add: m iterate_step_def call_with_draws_def record_call_def
        rng_draw_def minstd_next_def minstd_modulus_def Let_def)
  from run cnt show ?thesis by simp
qed

section \<open>Snapshots\<close>

lemma read_chars_round_trip:
  "read_chars (length s) (map Char_t s @ rest) = Some (s, rest)"
  by (induction s) simp_all

lemma read_array_round_trip:
  assumes "\<And>v rest. read_element (write_element v @ rest) = Some (v, rest)"
  shows "read_array read_element (length vs) (concat (map write_element vs) @ rest)
           = Some (vs, rest)"
  by (induction vs) (simp_all add: assms)

lemma read_position_round_trip:
  "read_position (write_position p @ rest) = Some (p, rest)"
  by (simp add: read_position_def write_position_def)

lemma read_item_round_trip:
  "read_item (write_item i @ rest) = Some (i, rest)"
  by (simp add: read_item_def write_item_def read_position_round_trip)

lemma read_items_round_trip:
  "read_items (write_items xs @ rest) = Some (xs, rest)"
  by (simp add: read_items_def write_items_def
      read_array_round_trip [of read_item write_item, OF read_item_round_trip])

lemma read_patch_round_trip:
  assumes "\<And>d rest. read_data (write_data d @ rest) = Some (d, rest)"
  shows "read_patch read_data (write_patch write_data p @ rest) = Some (p, rest)"
  by (simp add: read_patch_def write_patch_def read_items_round_trip assms)

lemma read_entry_round_trip:
  assumes "\<And>d rest. read_data (write_data d @ rest) = Some (d, rest)"
  shows "read_entry read_data (write_entry write_data e @ rest) = Some (e, rest)"
  by (simp add: read_entry_def write_entry_def read_position_round_trip
      read_patch_round_trip [of read_data write_data, OF assms])

lemma read_patches_round_trip:
  assumes "\<And>d rest. read_data (write_data d @ rest) = Some (d, rest)"
  shows "read_patches read_data (write_patches write_data es @ rest) = Some (es, rest)"
  by (simp add: read_patches_def write_patches_def
      read_array_round_trip [of "read_entry read_data" "write_entry write_data",
        OF read_entry_round_trip [of read_data write_data, OF assms]])

lemma of_char_digit_char: "d < 10 \<Longrightarrow> (of_char (digit_char d) :: nat) = 48 + d"
  by (simp add: digit_char_def)

lemma is_digit_digit_char: "d < 10 \<Longrightarrow> is_digit (digit_char d)"
  by (simp add: is_digit_def of_char_digit_char)

lemma digit_value_digit_char: "d < 10 \<Longrightarrow> digit_value (digit_char d) = d"
  by (simp add: digit_value_def of_char_digit_char)

lemma decimal_digits: "c \<in> set (decimal k) \<Longrightarrow> is_digit c"
proof (induction k rule: decimal.induct)
  case (1 k)
  then show ?case
    by (subst (asm) (2) decimal.simps) (auto simp: is_digit_digit_char split: if_splits)
qed

lemma foldl_decimal: "foldl (\<lambda>a c. 10 * a + digit_value c) 0 (decimal k) = k"
proof (induction k rule: decimal.induct)
  case (1 k)
  show ?case
  proof (cases "k < 10")
    case True
    then show ?thesis by (simp add: decimal.simps [of k] digit_value_digit_char)
  next
    case False
    with 1 show ?thesis by (simp add: decimal.simps [of k] digit_value_digit_char)
  qed
qed

lemma parse_decimal_round_trip: "parse_decimal (decimal k) = k"
proof -
  have tw: "takeWhile is_digit (decimal k) = decimal k"
    by (rule takeWhile_eq_all_conv [THEN iffD2]) (auto dest: decimal_digits)
  show ?thesis unfolding parse_decimal_def tw by (rule foldl_decimal)
qed

lemma length_decimal: "0 < j \<Longrightarrow> k < 10 ^ j \<Longrightarrow> length (decimal k) \<le> j"
proof (induction k arbitrary: j rule: decimal.induct)
  case (1 k)
  show ?case
  proof (cases "k < 10")
    case True
    with "1.prems" show ?thesis by (simp add: decimal.simps [of k])
  next
    case False
    with "1.prems" obtain j' where j: "j = Suc j'" "0 < j'"
      by (cases j; cases "j - 1") auto
    with "1.prems" have "k div 10 < 10 ^ j'" by (simp add: less_mult_imp_div_less mult.commute)
    with "1.IH" [OF False j(2)] have "length (decimal (k div 10)) \<le> j'" by simp
    with False j show ?thesis by (simp add: decimal.simps [of k])
  qed
qed

lemma length_decimal_state:
  assumes "k < minstd_modulus"
  shows "length (decimal k) mod 2 ^ 32 = length (decimal k)"
proof -
  have "k < 10 ^ 10" using assms by (simp add: minstd_modulus_def)
  then have "length (decimal k) \<le> 10" by (rule length_decimal [rotated]) simp
  then show ?thesis by simp
qed

text \<open>
  C9. For every map whose generator state is below the modulus, and every payload
  codec that reads back what it wrote, \<open>write\<close> lays out the length of the generator
  text, the text, \<open>n\<close>, \<open>gibbs_iterations\<close> and the patch index, in that order, and
  \<open>read\<close> of what \<open>write\<close> wrote gives the map with the same \<open>n\<close>, the same
  \<open>gibbs_iterations\<close>, the same generator state and the same patches (positions,
  \<open>fixed\<close> flags, items and payloads), with the cache built anew, and leaves the rest
  of the stream.
\<close>

theorem snapshot_round_trip:
  assumes codec: "\<And>d rest. read_data (write_data d @ rest) = Some (d, rest)"
    and state: "rng world < minstd_modulus"
  shows "write_map write_data world
           = Size_t (length (decimal (rng world))) # map Char_t (decimal (rng world))
               @ Uint (map_n world) # Uint (gibbs_iterations world)
               # write_patches write_data (patches world)
       \<and> read_map make_cache read_data item_types (write_map write_data world @ rest)
           = Some (world\<lparr>cache := make_cache item_types (map_n world)\<rparr>, rest)"
proof -
  have chars: "read_chars (length (decimal (rng world)) mod 2 ^ 32)
                 (map Char_t (decimal (rng world)) @ ts) = Some (decimal (rng world), ts)" for ts
    unfolding length_decimal_state [OF state] by (rule read_chars_round_trip)
  show ?thesis
    by (simp add: write_map_def read_map_def Let_def chars [simplified]
        parse_decimal_round_trip
        read_patches_round_trip [of read_data write_data, OF codec])
qed

theorem snapshot_round_trip_witness:
  "rng snapshot_example < minstd_modulus
   \<and> read_uint (write_u32_data 7 @ [Bool_t True]) = Some (7, [Bool_t True])
   \<and> take 10 (write_map write_u32_data snapshot_example)
       = [Size_t 7, Char_t CHR ''2'', Char_t CHR ''0'', Char_t CHR ''2'', Char_t CHR ''7'',
          Char_t CHR ''3'', Char_t CHR ''8'', Char_t CHR ''2'', Uint 8, Uint 10]
   \<and> read_map no_cache read_uint [()] (write_map write_u32_data snapshot_example @ [Bool_t True])
       = Some (snapshot_example, [Bool_t True])"
proof -
  have codec: "\<And>d rest. read_uint (write_u32_data d @ rest) = Some (d, rest)"
    by (simp add: write_u32_data_def)
  have state: "rng snapshot_example < minstd_modulus"
    by (simp add: snapshot_example_def minstd_modulus_def)
  have digits: "decimal (rng snapshot_example) = ''2027382''"
    by (simp add: snapshot_example_def decimal.simps digit_char_def char_of_def bit_0)
  have same: "snapshot_example\<lparr>cache := no_cache [()] (map_n snapshot_example)\<rparr> = snapshot_example"
    by (simp add: snapshot_example_def)
  note r = snapshot_round_trip [of read_uint write_u32_data snapshot_example no_cache "[()]"
      "[Bool_t True]", OF codec state]
  have layout: "take 10 (write_map write_u32_data snapshot_example)
       = [Size_t 7, Char_t CHR ''2'', Char_t CHR ''0'', Char_t CHR ''2'', Char_t CHR ''7'',
          Char_t CHR ''3'', Char_t CHR ''8'', Char_t CHR ''2'', Uint 8, Uint 10]"
    unfolding conjunct1 [OF r] digits by (simp add: snapshot_example_def)
  have reread: "read_map no_cache read_uint [()]
        (write_map write_u32_data snapshot_example @ [Bool_t True])
       = Some (snapshot_example, [Bool_t True])"
    using conjunct2 [OF r] unfolding same .
  from state codec layout reread show ?thesis by blast
qed

end
